theory Spec2Isabelle
  imports Complex_Main "HOL-Library.Word" "HOL-Library.Log_Nat"
begin

unbundle bit_operations_syntax

section \<open>Data model of PageLayout.cpp\<close>

text \<open>
  The layout engine of \<^verbatim>\<open>src/ebooktest2/PageLayout.cpp\<close> turns the tokens of an html
  pull parser into pages of draw instructions. \<^verbatim>\<open>REAL\<close> and \<^verbatim>\<open>float\<close> values are real
  numbers (type \<open>real\<close>). Where a property rests on the value an arithmetic operation
  yields, in the scaling of images by \<^verbatim>\<open>AddImage\<close>, every operation rounds its result to
  binary32 (\<open>fl32\<close> below); the other operations, whose properties rest on comparisons and
  on the structure of the pages, are exact. \<^verbatim>\<open>size_t\<close> offsets and counts are \<open>nat\<close>; the
  \<^verbatim>\<open>int\<close> counter of consecutive newlines and the GDI+ \<^verbatim>\<open>FontStyle\<close> flags are 32-bit
  words.
\<close>

type_synonym REAL = real

text \<open>
  Rounding to binary32, the format of \<^verbatim>\<open>float\<close>: 24 significant bits, round to nearest,
  ties to even, one rounding for each operation (no wider intermediate results). The
  exponent is not bounded: overflow and subnormal numbers are outside the model. For \<open>x > 0\<close>, \<open>float_exp x\<close> is the exponent \<open>e\<close> with \<open>2^e \<le> x < 2^(e+1)\<close>, read
  off the bit length of the integer part (or of the reciprocal's, below 1).
\<close>

definition float_exp :: "real \<Rightarrow> int" where
  "float_exp x = (if 1 \<le> x then bitlen \<lfloor>x\<rfloor> - 1 else - bitlen (\<lceil>1 / x\<rceil> - 1))"

definition round_even :: "real \<Rightarrow> int" where
  "round_even m =
     (let f = \<lfloor>m\<rfloor>; d = m - of_int f
      in if d < 1 / 2 then f else if 1 / 2 < d then f + 1 else if even f then f else f + 1)"

definition fl32 :: "real \<Rightarrow> real" where
  "fl32 x =
     (if x = 0 then 0
      else (let q = 2 powi (float_exp \<bar>x\<bar> - 23)
            in sgn x * (of_int (round_even (\<bar>x\<bar> / q)) * q)))"

text \<open>GDI+ \<^verbatim>\<open>RectF\<close>.\<close>

record RectF =
  X :: REAL
  Y :: REAL
  Width :: REAL
  Height :: REAL

text \<open>GDI+ \<^verbatim>\<open>FontStyle\<close>: an \<^verbatim>\<open>int\<close> enumeration of bit flags.\<close>

type_synonym FontStyle = "32 word"

definition FontStyleRegular :: FontStyle where "FontStyleRegular = 0"
definition FontStyleBold :: FontStyle where "FontStyleBold = 1"
definition FontStyleItalic :: FontStyle where "FontStyleItalic = 2"
definition FontStyleUnderline :: FontStyle where "FontStyleUnderline = 4"
definition FontStyleStrikeout :: FontStyle where "FontStyleStrikeout = 8"

text \<open>
  A GDI+ \<^verbatim>\<open>Font\<close> object, as built by \<^verbatim>\<open>::new Font(name, size, style)\<close>. The constructor
  always yields an object; when the family cannot be resolved the object is not usable
  (\<^verbatim>\<open>IsAvailable()\<close> is false), which the field \<open>font_available\<close> records.
\<close>

record Font =
  font_name :: string
  font_size :: REAL
  font_style :: FontStyle
  font_available :: bool

text \<open>\<^verbatim>\<open>ImageData2\<close>: the bytes of an image and their number.\<close>

record ImageData2 =
  img_data :: string
  img_len :: nat

datatype InstrType = InstrTypeString | InstrTypeLine | InstrTypeSetFont | InstrTypeImage

text \<open>
  \<^verbatim>\<open>DrawInstr\<close> is declared in PageLayout.h: a type tag, a bounding box and a union of
  \<^verbatim>\<open>str\<close> (pointer and length), \<^verbatim>\<open>setFont.font\<close> and \<^verbatim>\<open>img.data\<close>. The union is the
  datatype \<open>InstrData\<close>.
\<close>

datatype InstrData =
    StrData string nat
  | SetFontData Font
  | ImgData ImageData2
  | NoData

record DrawInstr =
  instr_type :: InstrType
  bbox :: RectF
  instr_data :: InstrData

definition RectF_zero :: RectF where
  "RectF_zero = \<lparr>X = 0, Y = 0, Width = 0, Height = 0\<rparr>"

text \<open>
  Modelled from the spec: the four factory functions of \<^verbatim>\<open>DrawInstr\<close> live in
  PageLayout.h, which is not among the sources. Each sets the tag and its payload; the
  ones without a box argument keep the default (zero) box.
\<close>

definition DrawInstr_SetFont :: "Font \<Rightarrow> DrawInstr" where
  "DrawInstr_SetFont font =
     \<lparr>instr_type = InstrTypeSetFont, bbox = RectF_zero, instr_data = SetFontData font\<rparr>"

definition DrawInstr_Str :: "string \<Rightarrow> nat \<Rightarrow> RectF \<Rightarrow> DrawInstr" where
  "DrawInstr_Str s len bb =
     \<lparr>instr_type = InstrTypeString, bbox = bb, instr_data = StrData s len\<rparr>"

definition DrawInstr_Line :: "RectF \<Rightarrow> DrawInstr" where
  "DrawInstr_Line bb = \<lparr>instr_type = InstrTypeLine, bbox = bb, instr_data = NoData\<rparr>"

definition DrawInstr_Image :: "ImageData2 \<Rightarrow> RectF \<Rightarrow> DrawInstr" where
  "DrawInstr_Image d bb =
     \<lparr>instr_type = InstrTypeImage, bbox = bb, instr_data = ImgData d\<rparr>"

text \<open>\<^verbatim>\<open>PageData\<close>: the vector \<^verbatim>\<open>drawInstructions\<close>, in insertion order.\<close>

type_synonym PageData = "DrawInstr list"

section \<open>FontCache\<close>

record Entry =
  entry_name :: string
  entry_size :: REAL
  entry_style :: FontStyle
  entry_font :: Font

text \<open>
  Modelled from the spec: \<^verbatim>\<open>Entry::operator==\<close> is declared in PageLayout.h. The spec
  makes the full descriptor (name, size, style) the key of the cache; the font pointer is
  not part of it. The probe \<^verbatim>\<open>Entry f = { name, size, style, NULL }\<close> of \<^verbatim>\<open>GetFont\<close> is
  therefore given by its three key fields. The entries of the cache hold the pointers
  that \<^verbatim>\<open>new\<close> returned, which are never \<^verbatim>\<open>NULL\<close>.
\<close>

definition Entry_eq :: "string \<Rightarrow> REAL \<Rightarrow> FontStyle \<Rightarrow> Entry \<Rightarrow> bool" where
  "Entry_eq name size' style e \<longleftrightarrow>
     name = entry_name e \<and> size' = entry_size e \<and> style = entry_style e"

text \<open>
  What the engine takes from its collaborators (GDI+, the html pull parser, the document)
  is a parameter of the model, collected in one record:
  \<^item> \<open>FontIsAvailable\<close>: whether GDI+ can build a usable font for a descriptor;
  \<^item> \<open>GetHeight\<close>: \<^verbatim>\<open>Font::GetHeight(&gfx)\<close>;
  \<^item> \<open>MeasureText\<close>: \<^verbatim>\<open>MeasureText(&gfx, font, buf, strLen)\<close> applied to the word after
    \<^verbatim>\<open>str::Utf8ToWcharBuf\<close>;
  \<^item> \<open>BitmapFromData\<close>: width and height of the decoded bitmap, \<open>None\<close> for \<^verbatim>\<open>NULL\<close>;
  \<^item> \<open>RecordStartTag\<close>, \<open>RecordEndTag\<close>: the bookkeeping of open tags;
  \<^item> \<open>FindAlignAttr\<close>: the alignment named by an attribute value;
  \<^item> \<open>IsWs\<close>: the whitespace test behind \<^verbatim>\<open>SkipWs\<close> and \<^verbatim>\<open>SkipNonWs\<close>;
  \<^item> \<open>HasName\<close>: \<^verbatim>\<open>AttrInfo::HasName\<close>, on the attribute's name.
\<close>

datatype AlignAttr = Align_NotFound | Align_Left | Align_Right | Align_Center | Align_Justify

datatype HtmlTag =
    Tag_NotFound | Tag_P | Tag_Hr | Tag_B | Tag_Strong | Tag_I | Tag_Em | Tag_U
  | Tag_Strike | Tag_Pagebreak | Tag_Mbp_Pagebreak | Tag_Img | Tag_Style

record Env =
  FontIsAvailable :: "string \<Rightarrow> REAL \<Rightarrow> FontStyle \<Rightarrow> bool"
  GetHeight :: "Font \<Rightarrow> REAL"
  MeasureText :: "Font \<Rightarrow> string \<Rightarrow> RectF"
  BitmapFromData :: "ImageData2 \<Rightarrow> (nat \<times> nat) option"
  RecordStartTag :: "HtmlTag list \<Rightarrow> HtmlTag \<Rightarrow> HtmlTag list"
  RecordEndTag :: "HtmlTag list \<Rightarrow> HtmlTag \<Rightarrow> HtmlTag list"
  FindAlignAttr :: "string \<Rightarrow> AlignAttr"
  IsWs :: "char \<Rightarrow> bool"
  HasName :: "string \<Rightarrow> string \<Rightarrow> bool"

definition new_Font :: "Env \<Rightarrow> string \<Rightarrow> REAL \<Rightarrow> FontStyle \<Rightarrow> Font" where
  "new_Font E name size' style =
     \<lparr>font_name = name, font_size = size', font_style = style,
      font_available = FontIsAvailable E name size' style\<rparr>"

text \<open>
  \<^verbatim>\<open>FontCache::GetFont\<close>: the first entry equal to the probe wins; otherwise a font is
  constructed, appended and returned. The result is the returned pointer and the cache.
\<close>

definition GetFont :: "Env \<Rightarrow> Entry list \<Rightarrow> string \<Rightarrow> REAL \<Rightarrow> FontStyle \<Rightarrow> Font \<times> Entry list" where
  "GetFont E cache name size' style =
     (case find (Entry_eq name size' style) cache of
        Some e \<Rightarrow> (entry_font e, cache)
      | None \<Rightarrow>
          (let f = \<lparr>entry_name = name, entry_size = size', entry_style = style,
                    entry_font = new_Font E name size' style\<rparr>
           in (entry_font f, cache @ [f])))"

section \<open>WordsIter\<close>

record WordInfo =
  wi_s :: string
  wi_len :: nat

text \<open>
  \<open>wi_s\<close> holds the characters the pointer \<^verbatim>\<open>s\<close> designates; \<^verbatim>\<open>*s\<close> is its first one
  (the terminating 0 when there is none).
\<close>

definition deref :: "string \<Rightarrow> char" where
  "deref s = (case s of [] \<Rightarrow> CHR 0x00 | c # _ \<Rightarrow> c)"

definition IsNewline :: "WordInfo \<Rightarrow> bool" where
  "IsNewline wi \<longleftrightarrow> wi_len wi = 1 \<and> deref (wi_s wi) = CHR 0x0A"

text \<open>
  The iterator: the text \<open>it_s\<close> (\<^verbatim>\<open>end\<close> is its length) and the position \<open>it_curr\<close>.
\<close>

record WordsIter =
  it_s :: string
  it_curr :: nat

definition WordsIter_init :: "string \<Rightarrow> WordsIter" where
  "WordsIter_init s = \<lparr>it_s = s, it_curr = 0\<rparr>"

text \<open>\<^verbatim>\<open>isspace\<close> of the C locale: space, \<^verbatim>\<open>\t \n \v \f \r\<close>.\<close>

definition isspace :: "char \<Rightarrow> bool" where
  "isspace c \<longleftrightarrow> c = CHR 0x20 \<or> c = CHR 0x09 \<or> c = CHR 0x0A \<or> c = CHR 0x0B
     \<or> c = CHR 0x0C \<or> c = CHR 0x0D"

definition IsNewlineSkip :: "string \<Rightarrow> nat \<Rightarrow> bool \<times> nat" where
  "IsNewlineSkip s pos =
     (let os = pos;
          p1 = (if pos < length s \<and> s ! pos = CHR 0x0D then pos + 1 else pos);
          p2 = (if p1 < length s \<and> s ! p1 = CHR 0x0A then p1 + 1 else p1)
      in (p2 \<noteq> os, p2))"

text \<open>\<^verbatim>\<open>while (curr < end && *curr == ' ') curr++;\<close>\<close>

function skip_spaces :: "string \<Rightarrow> nat \<Rightarrow> nat" where
  "skip_spaces s pos =
     (if pos < length s \<and> s ! pos = CHR 0x20 then skip_spaces s (pos + 1) else pos)"
  by pat_completeness auto
termination
  by (relation "measure (\<lambda>(s, pos). length s - pos)") auto

text \<open>\<^verbatim>\<open>while (curr < end && !isspace(*curr)) curr++;\<close>\<close>

function skip_word :: "string \<Rightarrow> nat \<Rightarrow> nat" where
  "skip_word s pos =
     (if pos < length s \<and> \<not> isspace (s ! pos) then skip_word s (pos + 1) else pos)"
  by pat_completeness auto
termination
  by (relation "measure (\<lambda>(s, pos). length s - pos)") auto

text \<open>
  \<^verbatim>\<open>WordsIter::Next\<close>, with the two \<^verbatim>\<open>assert\<close>s compiled out: \<open>None\<close> is the \<^verbatim>\<open>NULL\<close>
  that ends the iteration. The condition of the second assertion is \<open>Next_assert_len\<close>.
\<close>

definition Next :: "WordsIter \<Rightarrow> WordInfo option \<times> WordsIter" where
  "Next it =
     (let s = it_s it;
          c1 = skip_spaces s (it_curr it)
      in if c1 = length s then (None, it\<lparr>it_curr := c1\<rparr>)
         else
           (let (nl, c2) = IsNewlineSkip s c1
            in if nl then (Some \<lparr>wi_s = [CHR 0x0A], wi_len = 1\<rparr>, it\<lparr>it_curr := c2\<rparr>)
               else
                 (let c3 = skip_word s c1
                  in (Some \<lparr>wi_s = take (c3 - c1) (drop c1 s), wi_len = c3 - c1\<rparr>,
                      it\<lparr>it_curr := c3\<rparr>))))"

definition Next_assert_len :: "WordsIter \<Rightarrow> bool" where
  "Next_assert_len it =
     (case fst (Next it) of None \<Rightarrow> True | Some wi \<Rightarrow> wi_len wi > 0)"

text \<open>The iterator after \<open>n\<close> calls of \<open>Next\<close>.\<close>

fun Next_times :: "nat \<Rightarrow> WordsIter \<Rightarrow> WordsIter" where
  "Next_times 0 it = it"
| "Next_times (Suc n) it = Next_times n (snd (Next it))"

section \<open>The html tokens\<close>

text \<open>
  Modelled from the spec: \<^verbatim>\<open>HtmlToken\<close> and \<^verbatim>\<open>AttrInfo\<close> are declared in HtmlPullParser.h,
  which is not among the sources. A token is a tag (start, end
  or empty element), a text span or an error; \<open>tok_tag\<close> is what \<^verbatim>\<open>FindTag\<close> gives for it,
  \<open>tok_attrs\<close> the attributes \<^verbatim>\<open>NextAttr\<close> enumerates, \<open>tok_s\<close> the text (\<^verbatim>\<open>sLen\<close> is its
  length).
\<close>

datatype TokenType = StartTag | EndTag | EmptyElementTag | Text | Error

record AttrInfo =
  attr_name :: string
  attr_val :: string

record HtmlToken =
  tok_type :: TokenType
  tok_tag :: HtmlTag
  tok_attrs :: "AttrInfo list"
  tok_s :: string

definition IsStartTag :: "HtmlToken \<Rightarrow> bool" where
  "IsStartTag t \<longleftrightarrow> tok_type t = StartTag"

definition IsEndTag :: "HtmlToken \<Rightarrow> bool" where
  "IsEndTag t \<longleftrightarrow> tok_type t = EndTag"

definition IsTag :: "HtmlToken \<Rightarrow> bool" where
  "IsTag t \<longleftrightarrow> tok_type t = StartTag \<or> tok_type t = EndTag \<or> tok_type t = EmptyElementTag"

definition IsError :: "HtmlToken \<Rightarrow> bool" where
  "IsError t \<longleftrightarrow> tok_type t = Error"

text \<open>
  \<^verbatim>\<open>LayoutInfo\<close>: \<open>li_tokens\<close> stands for the tokens that the pull parser built over
  \<^verbatim>\<open>htmlStr\<close> yields, \<open>li_doc\<close> for \<^verbatim>\<open>doc->GetImageData\<close> (\<open>None\<close> when \<^verbatim>\<open>doc\<close> is
  \<^verbatim>\<open>NULL\<close>). The page size is a pair of \<^verbatim>\<open>int\<close>s.
\<close>

record LayoutInfo =
  li_tokens :: "HtmlToken list"
  li_doc :: "(string \<Rightarrow> ImageData2 option) option"
  li_pageSize_dx :: int
  li_pageSize_dy :: int
  li_fontName :: string
  li_fontSize :: REAL

section \<open>PageLayout\<close>

text \<open>
  The members of \<^verbatim>\<open>class PageLayout\<close>. \<open>pageObserver\<close> is \<open>None\<close> for \<^verbatim>\<open>NULL\<close> and
  otherwise holds the pages the observer has received through \<^verbatim>\<open>NewPage\<close>, in order.
  \<open>fontCache\<close> is the content of the cache the engine points to. \<^verbatim>\<open>pageSize\<close> and
  \<^verbatim>\<open>curr\<close> are given by their two coordinates. \<open>currPage\<close> is the page under
  construction; the pointer is \<^verbatim>\<open>NULL\<close> only until \<^verbatim>\<open>StartLayout\<close> creates the first
  page, and \<open>[]\<close> stands for it there.
\<close>

record PageLayout =
  pageObserver :: "PageData list option"
  fontCache :: "Entry list"
  pageSize_dx :: REAL
  pageSize_dy :: REAL
  lineSpacing :: REAL
  spaceDx :: REAL
  fontName :: string
  fontSize :: REAL
  currFontStyle :: FontStyle
  currFont :: Font
  currJustification :: AlignAttr
  curr_x :: REAL
  curr_y :: REAL
  newLinesCount :: "32 word"
  currPage :: PageData
  tagNesting :: "HtmlTag list"
  currLineInstrOffset :: nat

definition GetInstructionsForCurrentLine :: "PageLayout \<Rightarrow> DrawInstr list" where
  "GetInstructionsForCurrentLine s = drop (currLineInstrOffset s) (currPage s)"

text \<open>Writing through the pointers of the current line leaves the earlier part alone.\<close>

definition SetInstructionsForCurrentLine :: "DrawInstr list \<Rightarrow> PageLayout \<Rightarrow> PageLayout" where
  "SetInstructionsForCurrentLine l s =
     s\<lparr>currPage := take (currLineInstrOffset s) (currPage s) @ l\<rparr>"

definition IsCurrentLineEmpty :: "PageLayout \<Rightarrow> bool" where
  "IsCurrentLineEmpty s \<longleftrightarrow> currLineInstrOffset s = length (currPage s)"

definition SetCurrentFont :: "Env \<Rightarrow> FontStyle \<Rightarrow> PageLayout \<Rightarrow> PageLayout" where
  "SetCurrentFont E fs s =
     (let (f, c) = GetFont E (fontCache s) (fontName s) (fontSize s) fs
      in s\<lparr>currFontStyle := fs, currFont := f, fontCache := c\<rparr>)"

definition AddSetFontInstr :: "Font \<Rightarrow> PageLayout \<Rightarrow> PageLayout" where
  "AddSetFontInstr font s = s\<lparr>currPage := currPage s @ [DrawInstr_SetFont font]\<rparr>"

definition ChangeFont :: "Env \<Rightarrow> FontStyle \<Rightarrow> bool \<Rightarrow> PageLayout \<Rightarrow> PageLayout" where
  "ChangeFont E fs addStyle s =
     (let newFontStyle = (if addStyle then currFontStyle s OR fs
                          else currFontStyle s AND NOT fs)
      in if newFontStyle = currFontStyle s then s
         else (let s1 = SetCurrentFont E newFontStyle s
               in AddSetFontInstr (currFont s1) s1))"

text \<open>
  \<^verbatim>\<open>StartNewPage\<close>. The test \<^verbatim>\<open>currPage && pageObserver\<close>: the page pointer is \<^verbatim>\<open>NULL\<close>
  only in the call from \<^verbatim>\<open>StartLayout\<close>, where the observer is \<^verbatim>\<open>NULL\<close> as well, so the
  observer decides. \<^verbatim>\<open>CrashIf(!currFont)\<close> never fires: the font is a result of
  \<^verbatim>\<open>GetFont\<close>.
\<close>

definition StartNewPage :: "PageLayout \<Rightarrow> PageLayout" where
  "StartNewPage s =
     (let s1 = (case pageObserver s of
                  Some received \<Rightarrow> s\<lparr>pageObserver := Some (received @ [currPage s])\<rparr>
                | None \<Rightarrow> s);
          s2 = s1\<lparr>currPage := [], curr_x := 0, curr_y := 0, newLinesCount := 0\<rparr>;
          s3 = AddSetFontInstr (currFont s2) s2
      in s3\<lparr>currLineInstrOffset := length (currPage s3)\<rparr>)"

fun GetCurrentLineDx_loop :: "REAL \<Rightarrow> REAL \<Rightarrow> DrawInstr list \<Rightarrow> REAL" where
  "GetCurrentLineDx_loop sp dx [] = dx"
| "GetCurrentLineDx_loop sp dx (i # is) =
     GetCurrentLineDx_loop sp
       (if instr_type i = InstrTypeString then dx + Width (bbox i) + sp else dx) is"

definition GetCurrentLineDx :: "PageLayout \<Rightarrow> REAL" where
  "GetCurrentLineDx s =
     (let dx = GetCurrentLineDx_loop (spaceDx s) (- spaceDx s) (GetInstructionsForCurrentLine s)
      in if dx < 0 then 0 else dx)"

text \<open>The loop of \<^verbatim>\<open>LayoutLeftStartingAt\<close>: the instructions written and the final x.\<close>

fun LayoutLeft_loop :: "REAL \<Rightarrow> REAL \<Rightarrow> REAL \<Rightarrow> DrawInstr list \<Rightarrow> DrawInstr list \<times> REAL" where
  "LayoutLeft_loop sp y x [] = ([], x)"
| "LayoutLeft_loop sp y x (i # is) =
     (if instr_type i = InstrTypeString
      then (let i' = i\<lparr>bbox := (bbox i)\<lparr>X := x, Y := y\<rparr>\<rparr>;
                (r, x') = LayoutLeft_loop sp y (x + (Width (bbox i) + sp)) is
            in (i' # r, x'))
      else (let (r, x') = LayoutLeft_loop sp y x is in (i # r, x')))"

definition LayoutLeftStartingAt :: "REAL \<Rightarrow> PageLayout \<Rightarrow> PageLayout" where
  "LayoutLeftStartingAt offX s =
     (let (l, x') = LayoutLeft_loop (spaceDx s) (curr_y s) offX (GetInstructionsForCurrentLine s)
      in (SetInstructionsForCurrentLine l s)\<lparr>curr_x := x'\<rparr>)"

text \<open>\<^verbatim>\<open>for (size_t n = 1; ++c < end; n++) c->bbox.X += n * extraSpaceDx;\<close>\<close>

fun JustifyLineBoth_loop :: "nat \<Rightarrow> REAL \<Rightarrow> DrawInstr list \<Rightarrow> DrawInstr list" where
  "JustifyLineBoth_loop n extraSpaceDx [] = []"
| "JustifyLineBoth_loop n extraSpaceDx (c # cs) =
     c\<lparr>bbox := (bbox c)\<lparr>X := X (bbox c) + real n * extraSpaceDx\<rparr>\<rparr>
       # JustifyLineBoth_loop (n + 1) extraSpaceDx cs"

definition JustifyLineBoth :: "PageLayout \<Rightarrow> PageLayout" where
  "JustifyLineBoth s =
     (let margin = pageSize_dx s - GetCurrentLineDx s;
          s1 = LayoutLeftStartingAt 0 s;
          line = GetInstructionsForCurrentLine s1;
          count = length line;
          extraSpaceDx = (if count > 1 then margin / real (count - 1) else margin)
      in case line of
           [] \<Rightarrow> s1
         | c # cs \<Rightarrow> SetInstructionsForCurrentLine (c # JustifyLineBoth_loop 1 extraSpaceDx cs) s1)"

text \<open>
  \<^verbatim>\<open>JustifyLine\<close>; the \<^verbatim>\<open>default\<close> branch is \<^verbatim>\<open>assert(0); break;\<close>, which lays nothing out
  when assertions are compiled out.
\<close>

definition JustifyLine :: "AlignAttr \<Rightarrow> PageLayout \<Rightarrow> PageLayout" where
  "JustifyLine mode s =
     (if IsCurrentLineEmpty s then s
      else (let s1 = (case mode of
                        Align_Left \<Rightarrow> LayoutLeftStartingAt 0 s
                      | Align_Right \<Rightarrow> LayoutLeftStartingAt (pageSize_dx s - GetCurrentLineDx s) s
                      | Align_Center \<Rightarrow>
                          LayoutLeftStartingAt ((pageSize_dx s - GetCurrentLineDx s) / 2) s
                      | Align_Justify \<Rightarrow> JustifyLineBoth s
                      | Align_NotFound \<Rightarrow> s)
            in s1\<lparr>currLineInstrOffset := length (currPage s1)\<rparr>))"

definition StartNewLine :: "bool \<Rightarrow> PageLayout \<Rightarrow> PageLayout" where
  "StartNewLine isParagraphBreak s =
     (if 0 = curr_y s \<and> IsCurrentLineEmpty s then s
      else (let s1 = (if isParagraphBreak \<and> Align_Justify = currJustification s
                      then JustifyLine Align_Left s
                      else JustifyLine (currJustification s) s);
                s2 = s1\<lparr>curr_x := 0, curr_y := curr_y s1 + lineSpacing s1\<rparr>;
                s3 = s2\<lparr>currLineInstrOffset := length (currPage s2)\<rparr>
            in if curr_y s3 + lineSpacing s3 > pageSize_dy s3 then StartNewPage s3 else s3))"

definition Append :: "DrawInstr \<Rightarrow> PageLayout \<Rightarrow> PageLayout" where
  "Append i s = s\<lparr>currPage := currPage s @ [i]\<rparr>"

definition AddHr :: "PageLayout \<Rightarrow> PageLayout" where
  "AddHr s =
     (let s1 = StartNewLine True s;
          s2 = s1\<lparr>curr_x := 0\<rparr>;
          s3 = (if curr_y s2 + lineSpacing s2 > pageSize_dy s2 then StartNewPage s2 else s2);
          bb = \<lparr>X = curr_x s3, Y = curr_y s3, Width = pageSize_dx s3, Height = lineSpacing s3\<rparr>;
          s4 = Append (DrawInstr_Line bb) s3
      in StartNewLine True s4)"

definition AddWord :: "Env \<Rightarrow> WordInfo \<Rightarrow> PageLayout \<Rightarrow> PageLayout" where
  "AddWord E wi s =
     (if IsNewline wi
      then (let s1 = s\<lparr>newLinesCount := newLinesCount s + 1\<rparr>
            in if 2 = newLinesCount s1
               then (let needsTwo = (curr_x s1 \<noteq> 0);
                         s2 = StartNewLine True s1
                     in if needsTwo then StartNewLine True s2 else s2)
               else s1)
      else (let s1 = s\<lparr>newLinesCount := 0\<rparr>;
                bb = MeasureText E (currFont s1) (take (wi_len wi) (wi_s wi));
                dx = Width bb;
                s2 = (if curr_x s1 + dx > pageSize_dx s1 then StartNewLine False s1 else s1);
                bb' = bb\<lparr>Y := curr_y s2\<rparr>;
                s3 = Append (DrawInstr_Str (wi_s wi) (wi_len wi) bb') s2
            in s3\<lparr>curr_x := curr_x s3 + (dx + spaceDx s3)\<rparr>))"

text \<open>
  \<^verbatim>\<open>AddImage\<close>, in binary32: the conversions of the pixel sizes, every subtraction,
  division, multiplication and addition round.
\<close>

definition AddImage :: "Env \<Rightarrow> ImageData2 \<Rightarrow> PageLayout \<Rightarrow> PageLayout" where
  "AddImage E data s =
     (case BitmapFromData E data of
        None \<Rightarrow> s
      | Some (w, h) \<Rightarrow>
          (let s1 = StartNewLine False s;
               img = \<lparr>X = 0, Y = 0, Width = fl32 (real w), Height = fl32 (real h)\<rparr>;
               s2 = (if fl32 (pageSize_dy s1 - curr_y s1) < fl32 (Height img / 2)
                     then StartNewPage s1 else s1);
               img2 = (if Width img > pageSize_dx s2
                          \<or> Height img > fl32 (pageSize_dy s2 - curr_y s2)
                       then (let factor = min (fl32 (pageSize_dx s2 / Width img))
                                              (fl32 (fl32 (pageSize_dy s2 - curr_y s2) / Height img))
                             in img\<lparr>Width := fl32 (Width img * factor),
                                    Height := fl32 (Height img * factor)\<rparr>)
                       else img);
               s3 = s2\<lparr>curr_x := fl32 (curr_x s2 + fl32 (fl32 (pageSize_dx s2 - Width img2) / 2))\<rparr>;
               img3 = img2\<lparr>X := curr_x s3, Y := curr_y s3\<rparr>;
               s4 = Append (DrawInstr_Image data img3) s3;
               s5 = s4\<lparr>curr_y := fl32 (curr_y s4 + Height img3)\<rparr>
           in StartNewLine False s5))"

text \<open>The attribute loop of the paragraph tag.\<close>

fun P_attrs :: "Env \<Rightarrow> AttrInfo list \<Rightarrow> PageLayout \<Rightarrow> PageLayout" where
  "P_attrs E [] s = s"
| "P_attrs E (a # as) s =
     P_attrs E as
       (if HasName E (attr_name a) ''align''
        then s\<lparr>currJustification := FindAlignAttr E (attr_val a)\<rparr> else s)"

text \<open>The attribute loop of the image tag; \<open>doc\<close> is \<^verbatim>\<open>doc->GetImageData\<close>.\<close>

fun Img_attrs :: "Env \<Rightarrow> (string \<Rightarrow> ImageData2 option) \<Rightarrow> AttrInfo list \<Rightarrow> PageLayout \<Rightarrow> PageLayout" where
  "Img_attrs E doc [] s = s"
| "Img_attrs E doc (a # as) s =
     Img_attrs E doc as
       (if HasName E (attr_name a) ''src'' \<or> HasName E (attr_name a) ''recindex''
        then (case doc (attr_val a) of Some data \<Rightarrow> AddImage E data s | None \<Rightarrow> s)
        else s)"

definition HandleHtmlTag ::
  "Env \<Rightarrow> HtmlToken \<Rightarrow> (string \<Rightarrow> ImageData2 option) option \<Rightarrow> PageLayout \<Rightarrow> PageLayout" where
  "HandleHtmlTag E t doc s =
     (let tag = tok_tag t;
          s0 = (if IsStartTag t then s\<lparr>tagNesting := RecordStartTag E (tagNesting s) tag\<rparr>
                else if IsEndTag t then s\<lparr>tagNesting := RecordEndTag E (tagNesting s) tag\<rparr>
                else s)
      in if tag = Tag_P then
           (let s1 = (StartNewLine True s0)\<lparr>currJustification := Align_Justify\<rparr>
            in if IsStartTag t then P_attrs E (tok_attrs t) s1 else s1)
         else if tag = Tag_Hr then AddHr s0
         else if tag = Tag_B \<or> tag = Tag_Strong then ChangeFont E FontStyleBold (IsStartTag t) s0
         else if tag = Tag_I \<or> tag = Tag_Em then ChangeFont E FontStyleItalic (IsStartTag t) s0
         else if tag = Tag_U then ChangeFont E FontStyleUnderline (IsStartTag t) s0
         else if tag = Tag_Strike then ChangeFont E FontStyleStrikeout (IsStartTag t) s0
         else if tag = Tag_Pagebreak \<or> tag = Tag_Mbp_Pagebreak then
           StartNewPage (JustifyLine (currJustification s0) s0)
         else if tag = Tag_Img then
           (if IsEndTag t then s0
            else (case doc of Some d \<Rightarrow> Img_attrs E d (tok_attrs t) s0 | None \<Rightarrow> s0))
         else s0)"

text \<open>
  The loop of \<^verbatim>\<open>EmitText\<close> on the text from \<^verbatim>\<open>curr\<close> to \<^verbatim>\<open>end\<close>: \<^verbatim>\<open>SkipNonWs\<close> takes the
  word, \<^verbatim>\<open>SkipWs\<close> the whitespace after it.
\<close>

function EmitText_loop :: "Env \<Rightarrow> string \<Rightarrow> PageLayout \<Rightarrow> PageLayout" where
  "EmitText_loop E cs s =
     (if cs = [] then s
      else (let w = takeWhile (\<lambda>c. \<not> IsWs E c) cs;
                rest = dropWhile (\<lambda>c. \<not> IsWs E c) cs;
                s1 = (if length w > 0 then AddWord E \<lparr>wi_s = w, wi_len = length w\<rparr> s else s)
            in EmitText_loop E (dropWhile (IsWs E) rest) s1))"
  by pat_completeness auto
termination
proof (relation "measure (\<lambda>(E, cs, s). length cs)")
  show "wf (measure (\<lambda>(E, cs, s). length cs))" by simp
next
  fix E :: Env and cs :: string and s :: PageLayout and w rest s1
  assume ne: "cs \<noteq> []" and r: "rest = dropWhile (\<lambda>c. \<not> IsWs E c) cs"
  from ne obtain c cs' where cs: "cs = c # cs'" by (cases cs) auto
  have le: "\<And>P xs. length (dropWhile P (dropWhile (\<lambda>c. \<not> P c) xs)) \<le> length (xs :: string)"
    by (meson le_trans length_dropWhile_le)
  show "((E, dropWhile (IsWs E) rest, s1), (E, cs, s)) \<in> measure (\<lambda>(E, cs, s). length cs)"
  proof (cases "IsWs E c")
    case True
    then have "dropWhile (IsWs E) rest = dropWhile (IsWs E) cs'" by (simp add: r cs)
    then show ?thesis using length_dropWhile_le [of "IsWs E" cs'] by (simp add: cs)
  next
    case False
    then have "dropWhile (IsWs E) rest = dropWhile (IsWs E) (dropWhile (\<lambda>c. \<not> IsWs E c) cs')"
      by (simp add: r cs)
    then show ?thesis using le [of "IsWs E" cs'] by (simp add: cs)
  qed
qed

definition EmitText :: "Env \<Rightarrow> HtmlToken \<Rightarrow> PageLayout \<Rightarrow> PageLayout" where
  "EmitText E t s =
     (if Tag_Style \<in> set (tagNesting s) then s
      else EmitText_loop E (dropWhile (IsWs E) (tok_s t)) s)"

text \<open>
  The token loop of \<^verbatim>\<open>Process\<close>: it ends with the tokens or at the first error token.
\<close>

fun Process_loop ::
  "Env \<Rightarrow> (string \<Rightarrow> ImageData2 option) option \<Rightarrow> HtmlToken list \<Rightarrow> PageLayout \<Rightarrow> PageLayout" where
  "Process_loop E doc [] s = s"
| "Process_loop E doc (t # ts) s =
     (if IsError t then s
      else Process_loop E doc ts (if IsTag t then HandleHtmlTag E t doc s else EmitText E t s))"

definition Process ::
  "Env \<Rightarrow> PageData list option \<Rightarrow> (string \<Rightarrow> ImageData2 option) option \<Rightarrow> HtmlToken list
     \<Rightarrow> PageLayout \<Rightarrow> PageLayout" where
  "Process E observer doc tokens s =
     (let s0 = s\<lparr>pageObserver := observer\<rparr>;
          s1 = Process_loop E doc tokens s0;
          s2 = StartNewLine True s1
      in if length (currPage s2) > 0 then StartNewPage s2 else s2)"

text \<open>
  \<^verbatim>\<open>StartLayout\<close> on a freshly constructed engine (\<^verbatim>\<open>currPage\<close> and \<^verbatim>\<open>pageObserver\<close> are
  \<^verbatim>\<open>NULL\<close>), with the content of the font cache it was given.
\<close>

definition StartLayout :: "Env \<Rightarrow> LayoutInfo \<Rightarrow> Entry list \<Rightarrow> PageLayout" where
  "StartLayout E layoutInfo cache =
     (let (f, c) = GetFont E cache (li_fontName layoutInfo) (li_fontSize layoutInfo) FontStyleRegular;
          s = \<lparr>pageObserver = None, fontCache = c,
               pageSize_dx = real_of_int (li_pageSize_dx layoutInfo),
               pageSize_dy = real_of_int (li_pageSize_dy layoutInfo),
               lineSpacing = GetHeight E f,
               spaceDx = li_fontSize layoutInfo / 2.5,
               fontName = li_fontName layoutInfo, fontSize = li_fontSize layoutInfo,
               currFontStyle = FontStyleRegular, currFont = f,
               currJustification = Align_Justify,
               curr_x = 0, curr_y = 0, newLinesCount = 0, currPage = [],
               tagNesting = [], currLineInstrOffset = 0\<rparr>
      in StartNewPage s)"

definition LayoutHtml :: "Env \<Rightarrow> LayoutInfo \<Rightarrow> Entry list \<Rightarrow> PageData list option \<Rightarrow> PageLayout" where
  "LayoutHtml E li cache observer =
     Process E observer (li_doc li) (li_tokens li) (StartLayout E li cache)"

section \<open>Auxiliary notions for the properties\<close>

text \<open>
  The line finalisation at the head of \<^verbatim>\<open>StartNewLine\<close>: a paragraph break in justify mode
  lays the last line out left-aligned.
\<close>

definition finalize_line :: "bool \<Rightarrow> PageLayout \<Rightarrow> PageLayout" where
  "finalize_line isParagraphBreak s =
     (if isParagraphBreak \<and> Align_Justify = currJustification s
      then JustifyLine Align_Left s else JustifyLine (currJustification s) s)"


definition produced :: "PageLayout \<Rightarrow> PageData list" where
  "produced s = (case pageObserver s of Some received \<Rightarrow> received | None \<Rightarrow> []) @ [currPage s]"



text \<open>A page whose first instruction is a \<^verbatim>\<open>SetFont\<close>.\<close>

definition StartsWithSetFont :: "PageData \<Rightarrow> bool" where
  "StartsWithSetFont p = (case p of [] \<Rightarrow> False | i # _ \<Rightarrow> instr_type i = InstrTypeSetFont)"

text \<open>
  What holds between any two tokens: every page produced starts with a \<^verbatim>\<open>SetFont\<close>, the
  line offset lies within the page, and the cursor is at x = 0 while the line is empty.
\<close>

definition engine_inv :: "PageLayout \<Rightarrow> bool" where
  "engine_inv s \<longleftrightarrow>
     list_all StartsWithSetFont (produced s)
     \<and> currLineInstrOffset s \<le> length (currPage s)
     \<and> (IsCurrentLineEmpty s \<longrightarrow> curr_x s = 0)"


text \<open>
  The tokens of a text, collected by calling \<open>Next\<close> until it returns \<^verbatim>\<open>NULL\<close>, with a bound
  on the number of calls: \<open>None\<close> when the bound is reached before the end.
\<close>

fun Next_all :: "nat \<Rightarrow> WordsIter \<Rightarrow> WordInfo list option" where
  "Next_all 0 it = None"
| "Next_all (Suc n) it =
     (case Next it of
        (None, _) \<Rightarrow> Some []
      | (Some wi, it') \<Rightarrow> map_option ((#) wi) (Next_all n it'))"

text \<open>A text whose only \<^verbatim>\<open>isspace\<close> characters are the space, line feed and carriage return.\<close>

definition plain_ws :: "string \<Rightarrow> bool" where
  "plain_ws s \<longleftrightarrow> list_all (\<lambda>c. isspace c \<longrightarrow> c = CHR 0x20 \<or> c = CHR 0x0A \<or> c = CHR 0x0D) s"

text \<open>
  Where the left-to-right layout puts the \<open>k\<close>-th instruction of a line of words that starts
  at 0: the widths before it, each followed by one space.
\<close>

definition line_pos :: "REAL \<Rightarrow> DrawInstr list \<Rightarrow> nat \<Rightarrow> REAL" where
  "line_pos sp l k = sum_list (map (\<lambda>i. Width (bbox i) + sp) (take k l))"

section \<open>Sample collaborators and inputs\<close>

text \<open>
  A concrete environment for evaluating the engine: every font but ''NoSuchFont'' can be
  built, lines are 20 high, a word is 10 wide per character, whitespace is what the pull
  parser's \<^verbatim>\<open>IsWs\<close> accepts.
\<close>

definition sampleEnv :: Env where
  "sampleEnv =
     \<lparr>FontIsAvailable = (\<lambda>name size' style. name \<noteq> ''NoSuchFont''),
      GetHeight = (\<lambda>f. 20),
      MeasureText = (\<lambda>f w. \<lparr>X = 0, Y = 0, Width = 10 * real (length w), Height = 20\<rparr>),
      BitmapFromData = (\<lambda>d. if img_len d = 0 then None else Some (img_len d, 2 * img_len d)),
      RecordStartTag = (\<lambda>ns t. ns @ [t]),
      RecordEndTag = (\<lambda>ns t. butlast ns),
      FindAlignAttr = (\<lambda>v. if v = ''left'' then Align_Left else if v = ''right'' then Align_Right
                         else if v = ''center'' then Align_Center
                         else if v = ''justify'' then Align_Justify else Align_NotFound),
      IsWs = (\<lambda>c. c = CHR 0x20 \<or> c = CHR 0x09 \<or> c = CHR 0x0A \<or> c = CHR 0x0D),
      HasName = (\<lambda>n m. n = m)\<rparr>"

definition tab_iter :: WordsIter where
  "tab_iter = WordsIter_init [CHR 0x09]"

definition goodFont :: Font where
  "goodFont = \<lparr>font_name = ''Georgia'', font_size = 10, font_style = FontStyleRegular,
                font_available = True\<rparr>"

definition goodEntry :: Entry where
  "goodEntry = \<lparr>entry_name = ''Georgia'', entry_size = 10, entry_style = FontStyleRegular,
                 entry_font = goodFont\<rparr>"

definition badFont :: Font where
  "badFont = \<lparr>font_name = ''NoSuchFont'', font_size = 10, font_style = FontStyleRegular,
               font_available = False\<rparr>"

text \<open>Tokens, layout parameters (a page 100 wide) and the states the engine reaches on them.\<close>

definition text_token :: "string \<Rightarrow> HtmlToken" where
  "text_token s = \<lparr>tok_type = Text, tok_tag = Tag_NotFound, tok_attrs = [], tok_s = s\<rparr>"

definition tag_token :: "TokenType \<Rightarrow> HtmlTag \<Rightarrow> HtmlToken" where
  "tag_token ty tag = \<lparr>tok_type = ty, tok_tag = tag, tok_attrs = [], tok_s = []\<rparr>"

definition sampleInfo :: "int \<Rightarrow> HtmlToken list \<Rightarrow> LayoutInfo" where
  "sampleInfo dy ts = \<lparr>li_tokens = ts, li_doc = None, li_pageSize_dx = 100, li_pageSize_dy = dy,
     li_fontName = ''Georgia'', li_fontSize = 10\<rparr>"

definition bold_tokens :: "HtmlToken list" where
  "bold_tokens = [text_token ''aaaa '', tag_token StartTag Tag_B, text_token ''bbbb'',
                  tag_token EndTag Tag_B, text_token '' cccc'']"

definition sample_state :: "int \<Rightarrow> HtmlToken list \<Rightarrow> PageLayout" where
  "sample_state dy ts =
     Process_loop sampleEnv None ts
       ((StartLayout sampleEnv (sampleInfo dy ts) [])\<lparr>pageObserver := Some []\<rparr>)"

text \<open>
  \<open>bold_line_state\<close>: after \<^verbatim>\<open>aaaa <b>bbbb</b>\<close>, before the word that wraps.
  \<open>two_word_state\<close>: after \<^verbatim>\<open>aaaa bbbb\<close> on a first line.
  \<open>second_line_state\<close>: on the second line of a page that holds exactly two lines.
\<close>

definition bold_line_state :: PageLayout where
  "bold_line_state = sample_state 200 (take 4 bold_tokens)"

definition two_word_state :: PageLayout where
  "two_word_state = sample_state 200 [text_token ''aaaa bbbb'']"



definition wide_word :: WordInfo where
  "wide_word = \<lparr>wi_s = ''aaaaaaaaaaaa'', wi_len = 12\<rparr>"




text \<open>Abbreviations for the instructions of the sample pages.\<close>

definition Str4 :: "string \<Rightarrow> REAL \<Rightarrow> REAL \<Rightarrow> DrawInstr" where
  "Str4 w x y = \<lparr>instr_type = InstrTypeString, bbox = \<lparr>X = x, Y = y, Width = 40, Height = 20\<rparr>,
       instr_data = StrData w 4\<rparr>"

definition SetFontAt :: "FontStyle \<Rightarrow> REAL \<Rightarrow> DrawInstr" where
  "SetFontAt st x = \<lparr>instr_type = InstrTypeSetFont, bbox = \<lparr>X = x, Y = 0, Width = 0, Height = 0\<rparr>,
       instr_data = SetFontData \<lparr>font_name = ''Georgia'', font_size = 10, font_style = st,
             font_available = True\<rparr>\<rparr>"


section \<open>Properties of the word iterator and the font cache\<close>

lemma Next_tab_iter: "Next tab_iter = (Some \<lparr>wi_s = [], wi_len = 0\<rparr>, tab_iter)"
  by (simp add: tab_iter_def WordsIter_init_def Next_def IsNewlineSkip_def isspace_def)

lemma Next_times_tab_iter: "Next_times n tab_iter = tab_iter"
  by (induction n) (simp_all add: Next_tab_iter)

text \<open>
  On a text whose whitespace is plain (space, line feed, carriage return), every call of
  \<open>Next\<close> that returns a token moves the iterator forward and the token has a positive
  length, so the tokens are collected within \<open>length s + 1\<close> calls.
\<close>

declare skip_spaces.simps [simp del] skip_word.simps [simp del]

lemma skip_spaces_bounds:
  "pos \<le> skip_spaces s pos \<and> (pos \<le> length s \<longrightarrow> skip_spaces s pos \<le> length s)
   \<and> (skip_spaces s pos < length s \<longrightarrow> s ! skip_spaces s pos \<noteq> CHR 0x20)"
proof (induction s pos rule: skip_spaces.induct)
  case (1 s pos)
  show ?case
  proof (cases "pos < length s \<and> s ! pos = CHR 0x20")
    case True
    then show ?thesis using "1.IH" by (subst (1 2 3 4) skip_spaces.simps) auto
  next
    case False
    then show ?thesis by (subst (1 2 3 4) skip_spaces.simps) auto
  qed
qed

lemma skip_word_bounds:
  "pos \<le> skip_word s pos \<and> (pos \<le> length s \<longrightarrow> skip_word s pos \<le> length s)"
proof (induction s pos rule: skip_word.induct)
  case (1 s pos)
  show ?case
  proof (cases "pos < length s \<and> \<not> isspace (s ! pos)")
    case True
    then show ?thesis using "1.IH" by (subst (1 2) skip_word.simps) auto
  next
    case False
    then show ?thesis by (subst (1 2) skip_word.simps) auto
  qed
qed

lemma skip_word_advances:
  "pos < length s \<Longrightarrow> \<not> isspace (s ! pos) \<Longrightarrow> pos < skip_word s pos"
  using skip_word_bounds [of "pos + 1" s] by (subst skip_word.simps) auto

lemma Next_progress:
  assumes ws: "plain_ws (it_s it)" and le: "it_curr it \<le> length (it_s it)"
    and nx: "Next it = (Some wi, it')"
  shows "it_s it' = it_s it \<and> it_curr it < it_curr it' \<and> it_curr it' \<le> length (it_s it)
         \<and> 0 < wi_len wi"
proof -
  let ?s = "it_s it"
  let ?c1 = "skip_spaces ?s (it_curr it)"
  from skip_spaces_bounds [of "it_curr it" ?s] le
  have b1: "it_curr it \<le> ?c1" "?c1 \<le> length ?s" "?c1 < length ?s \<longrightarrow> ?s ! ?c1 \<noteq> CHR 0x20"
    by auto
  from nx have lt: "?c1 < length ?s"
    using b1(2) by (auto simp: Next_def Let_def split: if_splits prod.splits)
  show ?thesis
  proof (cases "fst (IsNewlineSkip ?s ?c1)")
    case True
    then have "snd (IsNewlineSkip ?s ?c1) > ?c1 \<and> snd (IsNewlineSkip ?s ?c1) \<le> length ?s"
      using lt by (auto simp: IsNewlineSkip_def Let_def split: if_splits)
    then show ?thesis
      using nx lt True b1(1) by (auto simp: Next_def Let_def split: prod.splits if_splits)
  next
    case False
    then have "?s ! ?c1 \<noteq> CHR 0x0D \<and> ?s ! ?c1 \<noteq> CHR 0x0A"
      using lt by (auto simp: IsNewlineSkip_def Let_def split: if_splits)
    moreover have "isspace (?s ! ?c1) \<longrightarrow>
        ?s ! ?c1 = CHR 0x20 \<or> ?s ! ?c1 = CHR 0x0A \<or> ?s ! ?c1 = CHR 0x0D"
      using ws lt by (simp add: plain_ws_def list_all_length)
    ultimately have "\<not> isspace (?s ! ?c1)" using b1(3) lt by blast
    then have adv: "?c1 < skip_word ?s ?c1" using lt by (rule skip_word_advances [rotated])
    have "skip_word ?s ?c1 \<le> length ?s" using skip_word_bounds [of ?c1 ?s] b1(2) by simp
    then show ?thesis
      using nx lt False b1(1) adv
      by (auto simp: Next_def Let_def split: prod.splits if_splits)
  qed
qed

lemma Next_all_terminates:
  "plain_ws (it_s it) \<Longrightarrow> it_curr it \<le> length (it_s it) \<Longrightarrow>
   length (it_s it) - it_curr it < n \<Longrightarrow>
   \<exists>ws. Next_all n it = Some ws \<and> list_all (\<lambda>wi. 0 < wi_len wi) ws"
proof (induction n arbitrary: it)
  case 0
  then show ?case by simp
next
  case (Suc n)
  show ?case
  proof (cases "Next it")
    case (Pair r it')
    show ?thesis
    proof (cases r)
      case None
      then show ?thesis using Pair by simp
    next
      case (Some wi)
      from Next_progress [OF Suc.prems(1,2)] Pair Some
      have p: "it_s it' = it_s it" "it_curr it < it_curr it'" "it_curr it' \<le> length (it_s it)"
        "0 < wi_len wi" by auto
      have "\<exists>ws. Next_all n it' = Some ws \<and> list_all (\<lambda>wi. 0 < wi_len wi) ws"
        using Suc.prems p by (intro Suc.IH) auto
      then show ?thesis using Pair Some p(4) by auto
    qed
  qed
qed

lemma Next_all_tab_iter: "Next_all n tab_iter = None"
  by (induction n) (simp_all add: Next_tab_iter)

text \<open>
  C8. On the text consisting of one tab, \<open>Next\<close> is neither at the end nor at a newline,
  and the tab is \<^verbatim>\<open>isspace\<close>: the word loop does not move, so the call returns a word of
  length 0 (the asserted \<^verbatim>\<open>wi.len > 0\<close> is false) and leaves the iterator where it was.
  Every later call does the same: the sequence of tokens never reaches \<^verbatim>\<open>NULL\<close>, whatever
  the number of calls.
\<close>

theorem WordsIter_tab_never_ends:
  "Next tab_iter = (Some \<lparr>wi_s = [], wi_len = 0\<rparr>, tab_iter)
   \<and> \<not> Next_assert_len tab_iter
   \<and> (\<forall>n. fst (Next (Next_times n tab_iter)) \<noteq> None)
   \<and> (\<forall>n. Next_all n tab_iter = None)"
  by (simp add: Next_assert_len_def Next_tab_iter Next_times_tab_iter Next_all_tab_iter)

text \<open>
  C9. A request for a font that cannot be built, on a cache whose first entry is a usable
  font: \<open>GetFont\<close> returns the unusable font object and stores it; there is no fallback to
  the first entry or to a default.
\<close>

theorem GetFont_no_fallback:
  "GetFont sampleEnv [goodEntry] ''NoSuchFont'' 10 FontStyleRegular =
     (badFont, [goodEntry, \<lparr>entry_name = ''NoSuchFont'', entry_size = 10,
                            entry_style = FontStyleRegular, entry_font = badFont\<rparr>])
   \<and> \<not> font_available (fst (GetFont sampleEnv [goodEntry] ''NoSuchFont'' 10 FontStyleRegular))"
  by (simp add: GetFont_def sampleEnv_def goodEntry_def goodFont_def badFont_def Entry_eq_def
      new_Font_def)

section \<open>What line layout leaves unchanged\<close>

lemma LayoutLeft_loop_types:
  "map instr_type (fst (LayoutLeft_loop sp y x l)) = map instr_type l"
  by (induction l arbitrary: x) (simp_all add: case_prod_beta Let_def)

lemma LayoutLeft_loop_length [simp]:
  "length (fst (LayoutLeft_loop sp y x l)) = length l"
  using LayoutLeft_loop_types [of sp y x l] by (metis length_map)

lemma JustifyLineBoth_loop_types:
  "map instr_type (JustifyLineBoth_loop n e l) = map instr_type l"
  by (induction l arbitrary: n) auto

lemma JustifyLineBoth_loop_length [simp]:
  "length (JustifyLineBoth_loop n e l) = length l"
  by (induction l arbitrary: n) auto

lemma LayoutLeftStartingAt_fields [simp]:
  "pageObserver (LayoutLeftStartingAt offX s) = pageObserver s"
  "fontCache (LayoutLeftStartingAt offX s) = fontCache s"
  "pageSize_dx (LayoutLeftStartingAt offX s) = pageSize_dx s"
  "pageSize_dy (LayoutLeftStartingAt offX s) = pageSize_dy s"
  "lineSpacing (LayoutLeftStartingAt offX s) = lineSpacing s"
  "spaceDx (LayoutLeftStartingAt offX s) = spaceDx s"
  "fontName (LayoutLeftStartingAt offX s) = fontName s"
  "fontSize (LayoutLeftStartingAt offX s) = fontSize s"
  "currFontStyle (LayoutLeftStartingAt offX s) = currFontStyle s"
  "currFont (LayoutLeftStartingAt offX s) = currFont s"
  "currJustification (LayoutLeftStartingAt offX s) = currJustification s"
  "curr_y (LayoutLeftStartingAt offX s) = curr_y s"
  "newLinesCount (LayoutLeftStartingAt offX s) = newLinesCount s"
  "tagNesting (LayoutLeftStartingAt offX s) = tagNesting s"
  "currLineInstrOffset (LayoutLeftStartingAt offX s) = currLineInstrOffset s"
  by (simp_all add: LayoutLeftStartingAt_def SetInstructionsForCurrentLine_def split: prod.splits)

lemma LayoutLeftStartingAt_types [simp]:
  "map instr_type (currPage (LayoutLeftStartingAt offX s)) = map instr_type (currPage s)"
proof -
  have "map instr_type (take n p @ fst (LayoutLeft_loop sp y x (drop n p))) = map instr_type p"
    for n p sp y x
    by (simp add: LayoutLeft_loop_types flip: take_map drop_map)
  then show ?thesis
    by (simp add: LayoutLeftStartingAt_def SetInstructionsForCurrentLine_def
        GetInstructionsForCurrentLine_def split: prod.splits)
      (metis fst_conv)
qed

lemma JustifyLineBoth_fields [simp]:
  "pageObserver (JustifyLineBoth s) = pageObserver s"
  "fontCache (JustifyLineBoth s) = fontCache s"
  "pageSize_dx (JustifyLineBoth s) = pageSize_dx s"
  "pageSize_dy (JustifyLineBoth s) = pageSize_dy s"
  "lineSpacing (JustifyLineBoth s) = lineSpacing s"
  "spaceDx (JustifyLineBoth s) = spaceDx s"
  "fontName (JustifyLineBoth s) = fontName s"
  "fontSize (JustifyLineBoth s) = fontSize s"
  "currFontStyle (JustifyLineBoth s) = currFontStyle s"
  "currFont (JustifyLineBoth s) = currFont s"
  "currJustification (JustifyLineBoth s) = currJustification s"
  "curr_y (JustifyLineBoth s) = curr_y s"
  "newLinesCount (JustifyLineBoth s) = newLinesCount s"
  "tagNesting (JustifyLineBoth s) = tagNesting s"
  "currLineInstrOffset (JustifyLineBoth s) = currLineInstrOffset s"
  by (simp_all add: JustifyLineBoth_def SetInstructionsForCurrentLine_def Let_def split: list.splits)

lemma JustifyLineBoth_types [simp]:
  "map instr_type (currPage (JustifyLineBoth s)) = map instr_type (currPage s)"
proof -
  let ?s1 = "LayoutLeftStartingAt 0 s"
  have "map instr_type (currPage (JustifyLineBoth s)) = map instr_type (currPage ?s1)"
  proof (cases "GetInstructionsForCurrentLine ?s1")
    case Nil
    then show ?thesis by (simp add: JustifyLineBoth_def Let_def)
  next
    case (Cons c cs)
    have "map instr_type (take (currLineInstrOffset ?s1) (currPage ?s1) @ c # JustifyLineBoth_loop 1 e cs)
        = map instr_type (take (currLineInstrOffset ?s1) (currPage ?s1) @ drop (currLineInstrOffset ?s1) (currPage ?s1))" for e
      using Cons unfolding GetInstructionsForCurrentLine_def
      by (simp add: JustifyLineBoth_loop_types)
    then show ?thesis using Cons
      by (simp add: JustifyLineBoth_def Let_def SetInstructionsForCurrentLine_def)
  qed
  then show ?thesis by simp
qed

lemma JustifyLine_fields [simp]:
  "pageObserver (JustifyLine m s) = pageObserver s"
  "fontCache (JustifyLine m s) = fontCache s"
  "pageSize_dx (JustifyLine m s) = pageSize_dx s"
  "pageSize_dy (JustifyLine m s) = pageSize_dy s"
  "lineSpacing (JustifyLine m s) = lineSpacing s"
  "spaceDx (JustifyLine m s) = spaceDx s"
  "fontName (JustifyLine m s) = fontName s"
  "fontSize (JustifyLine m s) = fontSize s"
  "currFontStyle (JustifyLine m s) = currFontStyle s"
  "currFont (JustifyLine m s) = currFont s"
  "currJustification (JustifyLine m s) = currJustification s"
  "curr_y (JustifyLine m s) = curr_y s"
  "newLinesCount (JustifyLine m s) = newLinesCount s"
  "tagNesting (JustifyLine m s) = tagNesting s"
  by (simp_all add: JustifyLine_def Let_def split: AlignAttr.splits)

lemma JustifyLine_types [simp]:
  "map instr_type (currPage (JustifyLine m s)) = map instr_type (currPage s)"
  by (simp add: JustifyLine_def Let_def split: AlignAttr.splits)

lemma JustifyLine_length [simp]:
  "length (currPage (JustifyLine m s)) = length (currPage s)"
  using JustifyLine_types [of m s] by (metis length_map)

lemma finalize_line_fields [simp]:
  "pageObserver (finalize_line b s) = pageObserver s"
  "fontCache (finalize_line b s) = fontCache s"
  "pageSize_dx (finalize_line b s) = pageSize_dx s"
  "pageSize_dy (finalize_line b s) = pageSize_dy s"
  "lineSpacing (finalize_line b s) = lineSpacing s"
  "spaceDx (finalize_line b s) = spaceDx s"
  "fontName (finalize_line b s) = fontName s"
  "fontSize (finalize_line b s) = fontSize s"
  "currFontStyle (finalize_line b s) = currFontStyle s"
  "currFont (finalize_line b s) = currFont s"
  "currJustification (finalize_line b s) = currJustification s"
  "curr_y (finalize_line b s) = curr_y s"
  "newLinesCount (finalize_line b s) = newLinesCount s"
  "tagNesting (finalize_line b s) = tagNesting s"
  "map instr_type (currPage (finalize_line b s)) = map instr_type (currPage s)"
  "length (currPage (finalize_line b s)) = length (currPage s)"
  by (simp_all add: finalize_line_def)

section \<open>New pages and new lines\<close>

lemma StartNewPage_eq:
  "StartNewPage s =
     s\<lparr>pageObserver := (case pageObserver s of Some r \<Rightarrow> Some (r @ [currPage s]) | None \<Rightarrow> None),
       currPage := [DrawInstr_SetFont (currFont s)], curr_x := 0, curr_y := 0,
       newLinesCount := 0, currLineInstrOffset := 1\<rparr>"
  by (simp add: StartNewPage_def AddSetFontInstr_def Let_def split: option.splits)

lemma StartNewPage_fields [simp]:
  "fontCache (StartNewPage s) = fontCache s"
  "pageSize_dx (StartNewPage s) = pageSize_dx s"
  "pageSize_dy (StartNewPage s) = pageSize_dy s"
  "lineSpacing (StartNewPage s) = lineSpacing s"
  "spaceDx (StartNewPage s) = spaceDx s"
  "fontName (StartNewPage s) = fontName s"
  "fontSize (StartNewPage s) = fontSize s"
  "currFontStyle (StartNewPage s) = currFontStyle s"
  "currFont (StartNewPage s) = currFont s"
  "currJustification (StartNewPage s) = currJustification s"
  "tagNesting (StartNewPage s) = tagNesting s"
  "currPage (StartNewPage s) = [DrawInstr_SetFont (currFont s)]"
  "curr_x (StartNewPage s) = 0"
  "curr_y (StartNewPage s) = 0"
  "newLinesCount (StartNewPage s) = 0"
  "currLineInstrOffset (StartNewPage s) = 1"
  by (simp_all add: StartNewPage_eq)

lemma StartNewLine_skip:
  "0 = curr_y s \<and> IsCurrentLineEmpty s \<Longrightarrow> StartNewLine b s = s"
  by (simp add: StartNewLine_def)

lemma StartNewLine_same_page:
  assumes "\<not> (0 = curr_y s \<and> IsCurrentLineEmpty s)"
    and "curr_y s + lineSpacing s + lineSpacing s \<le> pageSize_dy s"
  shows "StartNewLine b s =
           (finalize_line b s)\<lparr>curr_x := 0, curr_y := curr_y s + lineSpacing s,
              currLineInstrOffset := length (currPage s)\<rparr>"
  using assms by (auto simp: StartNewLine_def Let_def finalize_line_def)

lemma StartNewLine_new_page:
  assumes "\<not> (0 = curr_y s \<and> IsCurrentLineEmpty s)"
    and "curr_y s + lineSpacing s + lineSpacing s > pageSize_dy s"
  shows "StartNewLine b s =
           StartNewPage ((finalize_line b s)\<lparr>curr_x := 0, curr_y := curr_y s + lineSpacing s,
              currLineInstrOffset := length (currPage s)\<rparr>)"
  using assms by (auto simp: StartNewLine_def Let_def finalize_line_def)

lemma StartNewLine_fields [simp]:
  "fontCache (StartNewLine b s) = fontCache s"
  "pageSize_dx (StartNewLine b s) = pageSize_dx s"
  "pageSize_dy (StartNewLine b s) = pageSize_dy s"
  "lineSpacing (StartNewLine b s) = lineSpacing s"
  "spaceDx (StartNewLine b s) = spaceDx s"
  "fontName (StartNewLine b s) = fontName s"
  "fontSize (StartNewLine b s) = fontSize s"
  "currFontStyle (StartNewLine b s) = currFontStyle s"
  "currFont (StartNewLine b s) = currFont s"
  "currJustification (StartNewLine b s) = currJustification s"
  "tagNesting (StartNewLine b s) = tagNesting s"
  by (simp_all add: StartNewLine_def Let_def)

lemma StartNewLine_line_empty [simp]: "IsCurrentLineEmpty (StartNewLine b s)"
  by (simp add: StartNewLine_def Let_def IsCurrentLineEmpty_def)

lemma StartNewLine_curr_x:
  "curr_x (StartNewLine b s) = (if 0 = curr_y s \<and> IsCurrentLineEmpty s then curr_x s else 0)"
  by (simp add: StartNewLine_def Let_def)



section \<open>The horizontal rule\<close>




lemma pageObserver_StartNewPage_None:
  "pageObserver (StartNewPage s) = None \<longleftrightarrow> pageObserver s = None"
  by (simp add: StartNewPage_eq split: option.splits)

lemma pageObserver_StartNewLine_None:
  "pageObserver (StartNewLine b s) = None \<longleftrightarrow> pageObserver s = None"
  by (simp add: StartNewLine_def Let_def pageObserver_StartNewPage_None)





section \<open>Words and newlines\<close>
















text \<open>
  C4. A word that is not a newline and whose width does not fit after the cursor
  (\<open>curr_x + dx > pageSize_dx\<close>), in a state where an empty line has its cursor at x = 0 (which
  \<open>engine_inv\<close> maintains): the line is finalized by \<^verbatim>\<open>StartNewLine(false)\<close> first, and the word
  is appended as one \<^verbatim>\<open>Text\<close> instruction that is alone on the current line, keeps its full
  measured width (however wide), and has the cursor advance from 0 by that width and one
  space; nothing else changes. A word wider than the page is such a word whenever the cursor
  is not negative.
\<close>

theorem AddWord_wraps:
  assumes "\<not> IsNewline wi"
    and "curr_x s + Width (MeasureText E (currFont s) (take (wi_len wi) (wi_s wi))) > pageSize_dx s"
    and "IsCurrentLineEmpty s \<longrightarrow> curr_x s = 0"
  shows "let bb = MeasureText E (currFont s) (take (wi_len wi) (wi_s wi));
             s1 = StartNewLine False (s\<lparr>newLinesCount := 0\<rparr>);
             txt = DrawInstr_Str (wi_s wi) (wi_len wi) (bb\<lparr>Y := curr_y s1\<rparr>)
         in AddWord E wi s = (Append txt s1)\<lparr>curr_x := Width bb + spaceDx s\<rparr>
            \<and> currPage (AddWord E wi s) = currPage s1 @ [txt]
            \<and> pageObserver (AddWord E wi s) = pageObserver s1
            \<and> GetInstructionsForCurrentLine (AddWord E wi s) = [txt]
            \<and> instr_type txt = InstrTypeString \<and> Width (bbox txt) = Width bb
            \<and> curr_x (AddWord E wi s) = Width bb + spaceDx s
            \<and> curr_y (AddWord E wi s) = curr_y s1"
proof -
  let ?s0 = "s\<lparr>newLinesCount := 0\<rparr>"
  let ?s1 = "StartNewLine False ?s0"
  have empty: "currLineInstrOffset ?s1 = length (currPage ?s1)"
    using StartNewLine_line_empty [of False ?s0] by (simp only: IsCurrentLineEmpty_def)
  have x0: "curr_x ?s1 = 0"
    using assms(3) by (simp add: StartNewLine_curr_x IsCurrentLineEmpty_def)
  show ?thesis
    using assms(1,2) empty x0
    by (simp add: AddWord_def Let_def Append_def GetInstructionsForCurrentLine_def
        DrawInstr_Str_def)
qed

text \<open>An instance of the theorem, on the sample engine.\<close>

theorem AddWord_wraps_witness:
  "\<not> IsNewline wide_word
   \<and> curr_x two_word_state
       + Width (MeasureText sampleEnv (currFont two_word_state)
                  (take (wi_len wide_word) (wi_s wide_word))) > pageSize_dx two_word_state
   \<and> \<not> IsCurrentLineEmpty two_word_state
   \<and> pageSize_dx two_word_state
       < Width (MeasureText sampleEnv (currFont two_word_state)
                  (take (wi_len wide_word) (wi_s wide_word)))
   \<and> (let bb = MeasureText sampleEnv (currFont two_word_state)
                  (take (wi_len wide_word) (wi_s wide_word));
           s1 = StartNewLine False (two_word_state\<lparr>newLinesCount := 0\<rparr>);
           txt = DrawInstr_Str (wi_s wide_word) (wi_len wide_word) (bb\<lparr>Y := curr_y s1\<rparr>)
       in AddWord sampleEnv wide_word two_word_state
            = (Append txt s1)\<lparr>curr_x := Width bb + spaceDx two_word_state\<rparr>
          \<and> currPage (AddWord sampleEnv wide_word two_word_state) = currPage s1 @ [txt]
          \<and> pageObserver (AddWord sampleEnv wide_word two_word_state) = pageObserver s1
          \<and> GetInstructionsForCurrentLine (AddWord sampleEnv wide_word two_word_state) = [txt]
          \<and> instr_type txt = InstrTypeString \<and> Width (bbox txt) = Width bb
          \<and> curr_x (AddWord sampleEnv wide_word two_word_state)
               = Width bb + spaceDx two_word_state
          \<and> curr_y (AddWord sampleEnv wide_word two_word_state) = curr_y s1)"
proof -
  have h1: "\<not> IsNewline wide_word" by code_simp
  have h2: "curr_x two_word_state
       + Width (MeasureText sampleEnv (currFont two_word_state)
                  (take (wi_len wide_word) (wi_s wide_word))) > pageSize_dx two_word_state"
    by code_simp
  have ne: "\<not> IsCurrentLineEmpty two_word_state" by code_simp
  then have h3: "IsCurrentLineEmpty two_word_state \<longrightarrow> curr_x two_word_state = 0" by simp
  have wide: "pageSize_dx two_word_state
       < Width (MeasureText sampleEnv (currFont two_word_state)
                  (take (wi_len wide_word) (wi_s wide_word)))" by code_simp
  from h1 h2 ne wide AddWord_wraps [OF h1 h2 h3] show ?thesis by (intro conjI)
qed

section \<open>Rounding\<close>

lemma float_exp_bounds:
  assumes "0 < x"
  shows "2 powi float_exp x \<le> x" and "x < 2 powi (float_exp x + 1)"
proof -
  have "2 powi float_exp x \<le> x \<and> x < 2 powi (float_exp x + 1)"
  proof (cases "1 \<le> x")
    case True
    let ?n = "\<lfloor>x\<rfloor>"
    let ?k = "bitlen ?n"
    have n: "0 < ?n" using True by linarith
    from bitlen_bounds [OF n] have b: "2 ^ nat (?k - 1) \<le> ?n" "?n < 2 ^ nat ?k" by auto
    have k: "1 \<le> ?k" using n by (auto simp: bitlen_alt_def)
    have "real_of_int (2 ^ nat (?k - 1)) \<le> real_of_int ?n" using b(1) by (simp only: of_int_le_iff)
    then have "(2::real) ^ nat (?k - 1) \<le> real_of_int ?n" by simp
    moreover have "real_of_int ?n \<le> x" by simp
    ultimately have lo: "(2::real) ^ nat (?k - 1) \<le> x" by (rule order_trans)
    have "?n + 1 \<le> 2 ^ nat ?k" using b(2) by simp
    then have "real_of_int (?n + 1) \<le> real_of_int (2 ^ nat ?k)" by (simp only: of_int_le_iff)
    then have "real_of_int ?n + 1 \<le> (2::real) ^ nat ?k" by simp
    moreover have "x < real_of_int ?n + 1" by simp
    ultimately have hi: "x < (2::real) ^ nat ?k" by (rule less_le_trans [rotated])
    have p1: "(2::real) powi (?k - 1) = 2 ^ nat (?k - 1)" using k by (simp add: power_int_def)
    have p2: "(2::real) powi ?k = 2 ^ nat ?k" using k by (simp add: power_int_def)
    show ?thesis using True lo hi p1 p2 by (simp add: float_exp_def)
  next
    case False
    let ?y = "1 / x"
    let ?c = "\<lceil>?y\<rceil>"
    let ?k = "bitlen (?c - 1)"
    have y: "1 < ?y" using False assms by simp
    then have c: "0 < ?c - 1" by linarith
    from bitlen_bounds [OF c] have b: "2 ^ nat (?k - 1) \<le> ?c - 1" "?c - 1 < 2 ^ nat ?k" by auto
    have k: "1 \<le> ?k" using c by (auto simp: bitlen_alt_def)
    have "real_of_int (2 ^ nat (?k - 1)) \<le> real_of_int (?c - 1)" using b(1) by (simp only: of_int_le_iff)
    then have "(2::real) ^ nat (?k - 1) \<le> real_of_int ?c - 1" by simp
    moreover have "real_of_int ?c - 1 < ?y" by linarith
    ultimately have "(2::real) ^ nat (?k - 1) < ?y" by (rule le_less_trans)
    then have hi: "x < 1 / (2::real) ^ nat (?k - 1)"
      using assms by (simp add: field_simps)
    have "?c \<le> 2 ^ nat ?k" using b(2) by simp
    then have "real_of_int ?c \<le> real_of_int (2 ^ nat ?k)" by (simp only: of_int_le_iff)
    then have "real_of_int ?c \<le> (2::real) ^ nat ?k" by simp
    moreover have "?y \<le> real_of_int ?c" by simp
    ultimately have "?y \<le> (2::real) ^ nat ?k" by (rule order_trans [rotated])
    then have lo: "1 / (2::real) ^ nat ?k \<le> x"
      using assms by (simp add: field_simps)
    have p1: "(2::real) powi (- ?k) = 1 / 2 ^ nat ?k"
      using k by (simp add: power_int_def field_simps)
    have p2: "(2::real) powi (- ?k + 1) = 1 / 2 ^ nat (?k - 1)"
      using k by (simp add: power_int_def field_simps nat_diff_distrib)
    show ?thesis using False lo hi p1 p2 by (simp add: float_exp_def)
  qed
  then show "2 powi float_exp x \<le> x" and "x < 2 powi (float_exp x + 1)" by simp_all
qed


lemma round_even_le: "m < real_of_int K \<Longrightarrow> round_even m \<le> K"
proof -
  assume "m < real_of_int K"
  then have "\<lfloor>m\<rfloor> < K" by linarith
  then show ?thesis by (auto simp: round_even_def Let_def)
qed


lemma fl32_pos_form:
  assumes "0 < x"
  shows "fl32 x = real_of_int (round_even (x / 2 powi (float_exp x - 23))) * 2 powi (float_exp x - 23)"
  using assms by (simp add: fl32_def Let_def)

lemma fl32_minus: "fl32 (- x) = - fl32 x"
  by (simp add: fl32_def Let_def sgn_minus)








lemma ulp_scale: "2 ^ 24 * 2 powi (e - 23) = (2::real) powi (e + 1)"
proof -
  have "e + 1 = 24 + (e - 23)" by simp
  then have "(2::real) powi (e + 1) = 2 powi (24 + (e - 23))" by (rule arg_cong)
  also have "\<dots> = 2 powi 24 * 2 powi (e - 23)" by (subst power_int_add) simp_all
  finally show ?thesis by simp
qed



lemma float_exp_unique:
  assumes "0 < x" "2 powi e \<le> x" "x < 2 powi (e + 1)"
  shows "float_exp x = e"
proof (rule ccontr)
  assume ne: "float_exp x \<noteq> e"
  let ?f = "float_exp x"
  note b = float_exp_bounds [OF assms(1)]
  show False
  proof (cases "e < ?f")
    case True
    then have "(2::real) powi (e + 1) \<le> 2 powi ?f" by (intro power_int_increasing) simp_all
    with b(1) assms(3) show False by linarith
  next
    case False
    with ne have "?f + 1 \<le> e" by simp
    then have "(2::real) powi (?f + 1) \<le> 2 powi e" by (intro power_int_increasing) simp_all
    with b(2) assms(2) show False by linarith
  qed
qed

lemma round_even_of_int [simp]: "round_even (real_of_int k) = k"
  by (simp add: round_even_def)

lemma round_even_ge: "real_of_int K \<le> m \<Longrightarrow> K \<le> round_even m"
proof -
  assume "real_of_int K \<le> m"
  then have "K \<le> \<lfloor>m\<rfloor>" by linarith
  then show ?thesis by (auto simp: round_even_def Let_def)
qed

text \<open>A binary32 number: an integer of at most 24 bits times a power of two.\<close>

lemma fl32_of_repr:
  assumes "2 ^ 23 \<le> r" "r < 2 ^ 24"
  shows "fl32 (real_of_int r * 2 powi (e - 23)) = real_of_int r * 2 powi (e - 23)"
proof -
  let ?q = "(2::real) powi (e - 23)"
  let ?x = "real_of_int r * ?q"
  have q: "0 < ?q" by simp
  have r: "(2::real) ^ 23 \<le> real_of_int r" "real_of_int r < 2 ^ 24"
    using assms by (metis of_int_le_iff of_int_numeral of_int_power,
        metis of_int_less_iff of_int_numeral of_int_power)
  have x: "0 < ?x" using r(1) q by (intro mult_pos_pos) simp_all
  have "(2::real) powi e = 2 ^ 23 * ?q" by (simp add: power_int_diff)
  also have "\<dots> \<le> ?x" using r(1) q by (intro mult_right_mono) simp_all
  finally have lo: "2 powi e \<le> ?x" .
  have "?x < 2 ^ 24 * ?q" using r(2) q by (intro mult_strict_right_mono) simp_all
  also have "\<dots> = 2 powi (e + 1)" by (rule ulp_scale)
  finally have hi: "?x < 2 powi (e + 1)" .
  have e: "float_exp ?x = e" using x lo hi by (rule float_exp_unique)
  have "?x / ?q = real_of_int r" using q by simp
  then show ?thesis using e by (simp add: fl32_pos_form [OF x])
qed

lemma fl32_repr:
  assumes "0 < x"
  shows "\<exists>r e. 2 ^ 23 \<le> r \<and> r < 2 ^ 24 \<and> fl32 x = real_of_int r * 2 powi (e - 23)"
proof -
  let ?e = "float_exp x"
  let ?q = "(2::real) powi (?e - 23)"
  let ?r = "round_even (x / ?q)"
  have q: "0 < ?q" by simp
  note b = float_exp_bounds [OF assms]
  have "(2::real) powi ?e = 2 ^ 23 * ?q" by (simp add: power_int_diff)
  with b(1) have "2 ^ 23 * ?q \<le> x" by simp
  then have "2 ^ 23 \<le> x / ?q" using q by (simp only: pos_le_divide_eq)
  then have "real_of_int (2 ^ 23) \<le> x / ?q" by simp
  then have lo: "2 ^ 23 \<le> ?r" by (rule round_even_ge)
  have "x < 2 ^ 24 * ?q" using b(2) by (simp only: ulp_scale)
  then have "x / ?q < 2 ^ 24" using q by (simp only: pos_divide_less_eq)
  then have "x / ?q < real_of_int (2 ^ 24)" by simp
  then have hi: "?r \<le> 2 ^ 24" by (rule round_even_le)
  have f: "fl32 x = real_of_int ?r * ?q" by (rule fl32_pos_form [OF assms])
  show ?thesis
  proof (cases "?r < 2 ^ 24")
    case True
    from lo True f have "2 ^ 23 \<le> ?r \<and> ?r < 2 ^ 24 \<and> fl32 x = real_of_int ?r * 2 powi (?e - 23)"
      by (intro conjI)
    then show ?thesis by (intro exI)
  next
    case False
    with hi have "?r = 2 ^ 24" by linarith
    then have "fl32 x = 2 ^ 24 * ?q" using f by simp
    also have "\<dots> = 2 powi (?e + 1)" by (rule ulp_scale)
    also have "\<dots> = 2 ^ 23 * 2 powi ((?e + 1) - 23)"
      by (simp add: power_int_diff power_int_add)
    finally have g: "fl32 x = real_of_int (2 ^ 23) * 2 powi ((?e + 1) - 23)" by simp
    have "(2::int) ^ 23 \<le> 2 ^ 23 \<and> (2::int) ^ 23 < 2 ^ 24
        \<and> fl32 x = real_of_int (2 ^ 23) * 2 powi ((?e + 1) - 23)"
      using g by (intro conjI) simp_all
    then show ?thesis by (intro exI)
  qed
qed

lemma fl32_idem_pos:
  assumes "0 < x"
  shows "fl32 (fl32 x) = fl32 x" and "fl32 (fl32 x / 2) = fl32 x / 2"
proof -
  from fl32_repr [OF assms] obtain r e where
    r: "2 ^ 23 \<le> r" "r < 2 ^ 24" and f: "fl32 x = real_of_int r * 2 powi (e - 23)" by blast
  show "fl32 (fl32 x) = fl32 x" using fl32_of_repr [OF r, of e] f by simp
  have "fl32 x / 2 = real_of_int r * 2 powi ((e - 1) - 23)"
    using f by (simp add: power_int_diff)
  then show "fl32 (fl32 x / 2) = fl32 x / 2" using fl32_of_repr [OF r, of "e - 1"] by simp
qed

lemma fl32_idem [simp]: "fl32 (fl32 x) = fl32 x"
proof -
  consider "0 < x" | "x = 0" | "0 < - x" by linarith
  then show ?thesis
  proof cases
    case 1
    then show ?thesis by (rule fl32_idem_pos)
  next
    case 2
    then show ?thesis by (simp add: fl32_def)
  next
    case 3
    from fl32_idem_pos(1) [OF 3] show ?thesis by (simp add: fl32_minus)
  qed
qed

lemma fl32_half [simp]: "fl32 (fl32 x / 2) = fl32 x / 2"
proof -
  consider "0 < x" | "x = 0" | "0 < - x" by linarith
  then show ?thesis
  proof cases
    case 1
    then show ?thesis by (rule fl32_idem_pos)
  next
    case 2
    then show ?thesis by (simp add: fl32_def)
  next
    case 3
    from fl32_idem_pos(2) [OF 3] show ?thesis by (simp add: fl32_minus)
  qed
qed

section \<open>Images\<close>









section \<open>The invariant of the engine\<close>

lemma StartsWithSetFont_types:
  "StartsWithSetFont p \<longleftrightarrow> (case map instr_type p of [] \<Rightarrow> False | t # _ \<Rightarrow> t = InstrTypeSetFont)"
  by (cases p) (simp_all add: StartsWithSetFont_def)

lemma StartsWithSetFont_cong:
  "map instr_type p = map instr_type q \<Longrightarrow> StartsWithSetFont p = StartsWithSetFont q"
  by (simp only: StartsWithSetFont_types)

lemma StartsWithSetFont_append: "StartsWithSetFont p \<Longrightarrow> StartsWithSetFont (p @ q)"
  by (cases p) (simp_all add: StartsWithSetFont_def)

lemma StartsWithSetFont_single [simp]: "StartsWithSetFont [DrawInstr_SetFont f]"
  by (simp add: StartsWithSetFont_def DrawInstr_SetFont_def)

lemma StartsWithSetFont_nonempty: "StartsWithSetFont p \<Longrightarrow> p \<noteq> []"
  by (auto simp: StartsWithSetFont_def)

lemma engine_inv_StartNewPage:
  "list_all StartsWithSetFont (produced s) \<Longrightarrow> engine_inv (StartNewPage s)"
  by (simp add: engine_inv_def produced_def StartNewPage_eq IsCurrentLineEmpty_def
      split: option.splits)

lemma produced_finalize_line:
  "list_all StartsWithSetFont (produced s) \<Longrightarrow>
   list_all StartsWithSetFont (produced (finalize_line b s))"
  using StartsWithSetFont_cong [of "currPage (finalize_line b s)" "currPage s"]
  by (simp add: produced_def)

lemma engine_inv_StartNewLine:
  assumes "engine_inv s"
  shows "engine_inv (StartNewLine b s)"
proof (cases "0 = curr_y s \<and> IsCurrentLineEmpty s")
  case True
  then show ?thesis using assms by (simp add: StartNewLine_skip)
next
  case False
  let ?s3 = "(finalize_line b s)\<lparr>curr_x := 0, curr_y := curr_y s + lineSpacing s,
              currLineInstrOffset := length (currPage s)\<rparr>"
  have p: "list_all StartsWithSetFont (produced ?s3)"
    using produced_finalize_line [of s b] assms by (simp add: engine_inv_def produced_def)
  have i3: "engine_inv ?s3"
    using p by (simp add: engine_inv_def)
  show ?thesis
  proof (cases "curr_y s + lineSpacing s + lineSpacing s > pageSize_dy s")
    case True
    show ?thesis
      by (simp only: StartNewLine_new_page [OF False True] engine_inv_StartNewPage [OF p])
  next
    case F2: False
    then have "curr_y s + lineSpacing s + lineSpacing s \<le> pageSize_dy s" by simp
    then show ?thesis
      by (simp only: StartNewLine_same_page [OF False] i3)
  qed
qed

lemma engine_inv_Append_x:
  "engine_inv s \<Longrightarrow> engine_inv ((Append i s)\<lparr>curr_x := x\<rparr>)"
  by (simp add: engine_inv_def produced_def Append_def IsCurrentLineEmpty_def
      StartsWithSetFont_append)

lemma engine_inv_Append:
  "engine_inv s \<Longrightarrow> engine_inv (Append i s)"
  by (simp add: engine_inv_def produced_def Append_def IsCurrentLineEmpty_def
      StartsWithSetFont_append)

lemma engine_inv_upd [simp]:
  "engine_inv (s\<lparr>newLinesCount := n\<rparr>) = engine_inv s"
  "engine_inv (s\<lparr>currJustification := j\<rparr>) = engine_inv s"
  "engine_inv (s\<lparr>tagNesting := t\<rparr>) = engine_inv s"
  "engine_inv (s\<lparr>curr_y := y\<rparr>) = engine_inv s"
  by (simp_all add: engine_inv_def produced_def IsCurrentLineEmpty_def)

lemma engine_inv_x0: "engine_inv s \<Longrightarrow> engine_inv (s\<lparr>curr_x := 0\<rparr>)"
  by (simp add: engine_inv_def produced_def IsCurrentLineEmpty_def)

lemma engine_inv_produced: "engine_inv s \<Longrightarrow> list_all StartsWithSetFont (produced s)"
  by (simp add: engine_inv_def)

lemma engine_inv_AddHr: "engine_inv s \<Longrightarrow> engine_inv (AddHr s)"
  by (simp add: AddHr_def Let_def engine_inv_StartNewLine engine_inv_Append engine_inv_x0
      engine_inv_StartNewPage engine_inv_produced)

lemma engine_inv_AddWord: "engine_inv s \<Longrightarrow> engine_inv (AddWord E wi s)"
  by (simp add: AddWord_def Let_def engine_inv_StartNewLine engine_inv_Append_x)

lemma engine_inv_AddImage:
  assumes "engine_inv s"
  shows "engine_inv (AddImage E data s)"
proof (cases "BitmapFromData E data")
  case None
  then show ?thesis using assms by (simp add: AddImage_def)
next
  case (Some wh)
  obtain w h where wh: "wh = (w, h)" by (cases wh)
  let ?s1 = "StartNewLine False s"
  have i1: "engine_inv ?s1" using assms by (rule engine_inv_StartNewLine)
  have i2: "engine_inv (StartNewPage ?s1)"
    using i1 by (simp add: engine_inv_StartNewPage engine_inv_produced)
  have step: "engine_inv t \<Longrightarrow>
      engine_inv (StartNewLine False ((Append i (t\<lparr>curr_x := x\<rparr>))\<lparr>curr_y := y\<rparr>))" for t i x y
  proof -
    assume "engine_inv t"
    then have "engine_inv (Append i (t\<lparr>curr_x := x\<rparr>))"
      by (simp add: engine_inv_def produced_def Append_def IsCurrentLineEmpty_def
          StartsWithSetFont_append)
    then show ?thesis by (simp add: engine_inv_StartNewLine)
  qed
  show ?thesis
    using Some wh i1 i2
    by (simp add: AddImage_def Let_def step)
qed

lemma engine_inv_ChangeFont: "engine_inv s \<Longrightarrow> engine_inv (ChangeFont E fs b s)"
  by (auto simp: ChangeFont_def Let_def SetCurrentFont_def AddSetFontInstr_def engine_inv_def
      produced_def IsCurrentLineEmpty_def StartsWithSetFont_append split: prod.splits)

lemma engine_inv_P_attrs: "engine_inv s \<Longrightarrow> engine_inv (P_attrs E as s)"
  by (induction as arbitrary: s) simp_all

lemma engine_inv_Img_attrs: "engine_inv s \<Longrightarrow> engine_inv (Img_attrs E d as s)"
  by (induction as arbitrary: s) (simp_all add: engine_inv_AddImage split: option.splits)

lemma engine_inv_pagebreak:
  "engine_inv s \<Longrightarrow> engine_inv (StartNewPage (JustifyLine m s))"
proof -
  assume "engine_inv s"
  then have "list_all StartsWithSetFont (produced (JustifyLine m s))"
    using StartsWithSetFont_cong [of "currPage (JustifyLine m s)" "currPage s"]
    by (simp add: engine_inv_def produced_def)
  then show ?thesis by (rule engine_inv_StartNewPage)
qed

lemma engine_inv_HandleHtmlTag: "engine_inv s \<Longrightarrow> engine_inv (HandleHtmlTag E t doc s)"
  by (simp add: HandleHtmlTag_def Let_def engine_inv_StartNewLine engine_inv_P_attrs
      engine_inv_AddHr engine_inv_ChangeFont engine_inv_pagebreak engine_inv_Img_attrs
      split: option.splits)

declare EmitText_loop.simps [simp del]

lemma engine_inv_EmitText_loop: "engine_inv s \<Longrightarrow> engine_inv (EmitText_loop E cs s)"
proof (induction E cs s rule: EmitText_loop.induct)
  case (1 E cs s)
  show ?case
  proof (cases "cs = []")
    case True
    then show ?thesis using "1.prems" by (subst EmitText_loop.simps) simp
  next
    case False
    let ?w = "takeWhile (\<lambda>c. \<not> IsWs E c) cs"
    let ?s1 = "if length ?w > 0 then AddWord E \<lparr>wi_s = ?w, wi_len = length ?w\<rparr> s else s"
    have "engine_inv ?s1" using "1.prems" by (simp add: engine_inv_AddWord)
    from "1.IH" [OF False refl refl refl this] False show ?thesis
      by (subst EmitText_loop.simps) (simp add: Let_def)
  qed
qed

lemma engine_inv_EmitText: "engine_inv s \<Longrightarrow> engine_inv (EmitText E t s)"
  by (simp add: EmitText_def engine_inv_EmitText_loop)

lemma engine_inv_Process_loop: "engine_inv s \<Longrightarrow> engine_inv (Process_loop E doc ts s)"
  by (induction ts arbitrary: s) (simp_all add: engine_inv_HandleHtmlTag engine_inv_EmitText)

lemma engine_inv_StartLayout: "engine_inv ((StartLayout E li cache)\<lparr>pageObserver := Some []\<rparr>)"
  by (simp add: StartLayout_def Let_def StartNewPage_eq engine_inv_def produced_def
      IsCurrentLineEmpty_def split: prod.splits)

lemma engine_inv_StartLayout_None: "engine_inv (StartLayout E li cache)"
  by (simp add: StartLayout_def Let_def StartNewPage_eq engine_inv_def produced_def
      IsCurrentLineEmpty_def split: prod.splits)

lemma engine_inv_reachable:
  "engine_inv (Process_loop E doc ts ((StartLayout E li cache)\<lparr>pageObserver := Some []\<rparr>))"
  by (intro engine_inv_Process_loop engine_inv_StartLayout)

text \<open>
  C2. Whatever the tokens, with an observer or without, every page produced (handed over
  or under construction), during the token loop and at the end of \<^verbatim>\<open>LayoutHtml\<close>, starts
  with a \<^verbatim>\<open>SetFont\<close> instruction; and \<^verbatim>\<open>StartNewPage\<close> creates the page as exactly one
  \<^verbatim>\<open>SetFont\<close> of the font that is current at that moment.
\<close>

theorem pages_start_with_SetFont:
  "list_all StartsWithSetFont
     (produced (Process_loop E doc tokens ((StartLayout E li cache)\<lparr>pageObserver := Some []\<rparr>)))
   \<and> list_all StartsWithSetFont (produced (Process_loop E doc tokens (StartLayout E li cache)))
   \<and> list_all StartsWithSetFont (produced (LayoutHtml E li cache (Some [])))
   \<and> currPage (StartNewPage s) = [DrawInstr_SetFont (currFont s)]
   \<and> currFont (StartNewPage s) = currFont s"
proof (intro conjI)
  show "list_all StartsWithSetFont
     (produced (Process_loop E doc tokens ((StartLayout E li cache)\<lparr>pageObserver := Some []\<rparr>)))"
    by (intro engine_inv_produced engine_inv_Process_loop engine_inv_StartLayout)
  show "list_all StartsWithSetFont (produced (Process_loop E doc tokens (StartLayout E li cache)))"
    by (intro engine_inv_produced engine_inv_Process_loop engine_inv_StartLayout_None)
  have "engine_inv (StartNewLine True (Process_loop E (li_doc li) (li_tokens li)
          ((StartLayout E li cache)\<lparr>pageObserver := Some []\<rparr>)))" (is "engine_inv ?s2")
    by (intro engine_inv_StartNewLine engine_inv_Process_loop engine_inv_StartLayout)
  then have "engine_inv (if length (currPage ?s2) > 0 then StartNewPage ?s2 else ?s2)"
    by (simp add: engine_inv_StartNewPage engine_inv_produced)
  then show "list_all StartsWithSetFont (produced (LayoutHtml E li cache (Some [])))"
    by (simp add: LayoutHtml_def Process_def Let_def engine_inv_produced)
qed simp_all

section \<open>The end of the input\<close>

lemmas observer_None_simps = pageObserver_StartNewPage_None pageObserver_StartNewLine_None

lemma pageObserver_AddHr_None:
  "pageObserver (AddHr s) = None \<longleftrightarrow> pageObserver s = None"
  by (simp add: AddHr_def Let_def Append_def observer_None_simps)

lemma pageObserver_AddWord_None:
  "pageObserver (AddWord E wi s) = None \<longleftrightarrow> pageObserver s = None"
  by (simp add: AddWord_def Let_def Append_def observer_None_simps)

lemma pageObserver_AddImage_None:
  "pageObserver (AddImage E data s) = None \<longleftrightarrow> pageObserver s = None"
  by (simp add: AddImage_def Let_def Append_def observer_None_simps split: option.splits)

lemma pageObserver_ChangeFont [simp]:
  "pageObserver (ChangeFont E fs b s) = pageObserver s"
  by (simp add: ChangeFont_def Let_def SetCurrentFont_def AddSetFontInstr_def split: prod.splits)

lemma pageObserver_P_attrs [simp]:
  "pageObserver (P_attrs E as s) = pageObserver s"
  by (induction as arbitrary: s) simp_all

lemma pageObserver_Img_attrs_None:
  "pageObserver (Img_attrs E d as s) = None \<longleftrightarrow> pageObserver s = None"
  by (induction as arbitrary: s) (simp_all add: pageObserver_AddImage_None split: option.splits)

lemma pageObserver_HandleHtmlTag_None:
  "pageObserver (HandleHtmlTag E t doc s) = None \<longleftrightarrow> pageObserver s = None"
  by (simp add: HandleHtmlTag_def Let_def observer_None_simps pageObserver_AddHr_None
      pageObserver_Img_attrs_None split: option.splits)

lemma pageObserver_EmitText_loop_None:
  "pageObserver (EmitText_loop E cs s) = None \<longleftrightarrow> pageObserver s = None"
proof (induction E cs s rule: EmitText_loop.induct)
  case (1 E cs s)
  show ?case
  proof (cases "cs = []")
    case True
    then show ?thesis by (subst EmitText_loop.simps) simp
  next
    case False
    from "1.IH" [OF False refl refl refl] False show ?thesis
      by (subst EmitText_loop.simps) (simp add: Let_def pageObserver_AddWord_None)
  qed
qed

lemma pageObserver_EmitText_None:
  "pageObserver (EmitText E t s) = None \<longleftrightarrow> pageObserver s = None"
  by (simp add: EmitText_def pageObserver_EmitText_loop_None)

lemma pageObserver_Process_loop_None:
  "pageObserver (Process_loop E doc ts s) = None \<longleftrightarrow> pageObserver s = None"
  by (induction ts arbitrary: s)
    (simp_all add: pageObserver_HandleHtmlTag_None pageObserver_EmitText_None)

text \<open>
  C10. With an observer registered, \<^verbatim>\<open>LayoutHtml\<close> hands the page that is current after
  the final line flush to the observer, whatever the tokens: that page starts with a
  \<^verbatim>\<open>SetFont\<close>, so the guard \<^verbatim>\<open>Count() > 0\<close> holds. So at least one page is emitted; on no
  tokens at all the only page emitted consists of the \<^verbatim>\<open>SetFont\<close> alone.
\<close>

theorem last_page_always_emitted:
  "(let s2 = StartNewLine True
               (Process_loop E (li_doc li) (li_tokens li)
                  ((StartLayout E li cache)\<lparr>pageObserver := Some []\<rparr>))
    in \<exists>received. pageObserver s2 = Some received
         \<and> pageObserver (LayoutHtml E li cache (Some [])) = Some (received @ [currPage s2])
         \<and> StartsWithSetFont (currPage s2))
   \<and> pageObserver (LayoutHtml E (li\<lparr>li_tokens := []\<rparr>) cache (Some [])) =
       Some [[DrawInstr_SetFont
                (fst (GetFont E cache (li_fontName li) (li_fontSize li) FontStyleRegular))]]"
proof
  let ?s0 = "(StartLayout E li cache)\<lparr>pageObserver := Some []\<rparr>"
  let ?s1 = "Process_loop E (li_doc li) (li_tokens li) ?s0"
  let ?s2 = "StartNewLine True ?s1"
  have inv: "engine_inv ?s2"
    by (intro engine_inv_StartNewLine engine_inv_Process_loop engine_inv_StartLayout)
  then have sf: "StartsWithSetFont (currPage ?s2)"
    by (simp add: engine_inv_def produced_def)
  then have ne: "currPage ?s2 \<noteq> []" by (rule StartsWithSetFont_nonempty)
  have "pageObserver ?s2 \<noteq> None"
    by (simp add: pageObserver_StartNewLine_None pageObserver_Process_loop_None)
  then obtain received where r: "pageObserver ?s2 = Some received" by blast
  have "pageObserver (LayoutHtml E li cache (Some [])) = Some (received @ [currPage ?s2])"
    using ne r by (simp add: LayoutHtml_def Process_def Let_def StartNewPage_eq)
  with r sf show "let s2 = ?s2
    in \<exists>received. pageObserver s2 = Some received
         \<and> pageObserver (LayoutHtml E li cache (Some [])) = Some (received @ [currPage s2])
         \<and> StartsWithSetFont (currPage s2)"
    by (simp add: Let_def)
next
  show "pageObserver (LayoutHtml E (li\<lparr>li_tokens := []\<rparr>) cache (Some [])) =
       Some [[DrawInstr_SetFont
                (fst (GetFont E cache (li_fontName li) (li_fontSize li) FontStyleRegular))]]"
    by (simp add: LayoutHtml_def Process_def StartLayout_def Let_def StartNewPage_eq
        StartNewLine_def IsCurrentLineEmpty_def split: prod.splits)
qed

section \<open>Justification of a line with a font change\<close>

text \<open>
  On a line that consists of words only, \<^verbatim>\<open>JustifyLineBoth\<close> does what its comment says: the
  \<open>k\<close>-th word is shifted by \<open>k\<close> times the margin divided by the number of words less one, the
  first word starts at 0 and the last one ends at the page width.
\<close>

lemma GetCurrentLineDx_loop_text:
  "\<forall>i \<in> set l. instr_type i = InstrTypeString \<Longrightarrow>
   GetCurrentLineDx_loop sp dx l = dx + line_pos sp l (length l)"
  by (induction l arbitrary: dx) (simp_all add: line_pos_def)

lemma LayoutLeft_loop_text:
  "\<forall>i \<in> set l. instr_type i = InstrTypeString \<Longrightarrow> k < length l \<Longrightarrow>
   fst (LayoutLeft_loop sp y x l) ! k = (l ! k)\<lparr>bbox := (bbox (l ! k))\<lparr>X := x + line_pos sp l k, Y := y\<rparr>\<rparr>"
proof (induction l arbitrary: x k)
  case Nil
  then show ?case by simp
next
  case (Cons a l)
  show ?case
  proof (cases k)
    case 0
    then show ?thesis using Cons.prems by (simp add: case_prod_beta line_pos_def)
  next
    case (Suc j)
    then show ?thesis
      using Cons.prems Cons.IH [of j "x + (Width (bbox a) + sp)"]
      by (simp add: case_prod_beta line_pos_def add.assoc)
  qed
qed

lemma JustifyLineBoth_loop_nth:
  "k < length l \<Longrightarrow>
   JustifyLineBoth_loop n e l ! k = (l ! k)\<lparr>bbox := (bbox (l ! k))\<lparr>X := X (bbox (l ! k)) + real (n + k) * e\<rparr>\<rparr>"
proof (induction l arbitrary: n k)
  case Nil
  then show ?case by simp
next
  case (Cons a l)
  show ?case
  proof (cases k)
    case 0
    then show ?thesis by simp
  next
    case (Suc j)
    then show ?thesis using Cons.prems Cons.IH [of j "n + 1"] by simp
  qed
qed

lemma JustifyLineBoth_line:
  assumes off: "currLineInstrOffset s \<le> length (currPage s)"
    and ne: "GetInstructionsForCurrentLine s \<noteq> []"
  shows "GetInstructionsForCurrentLine (JustifyLineBoth s) =
    (let l = GetInstructionsForCurrentLine s;
         l1 = fst (LayoutLeft_loop (spaceDx s) (curr_y s) 0 l);
         e = (if length l > 1 then (pageSize_dx s - GetCurrentLineDx s) / real (length l - 1)
              else pageSize_dx s - GetCurrentLineDx s)
     in hd l1 # JustifyLineBoth_loop 1 e (tl l1))"
proof -
  let ?l = "GetInstructionsForCurrentLine s"
  let ?l1 = "fst (LayoutLeft_loop (spaceDx s) (curr_y s) 0 ?l)"
  let ?s1 = "LayoutLeftStartingAt 0 s"
  have len: "length (take (currLineInstrOffset s) (currPage s)) = currLineInstrOffset s"
    using off by simp
  have l1: "GetInstructionsForCurrentLine ?s1 = ?l1"
    using len
    by (simp add: LayoutLeftStartingAt_def SetInstructionsForCurrentLine_def
        GetInstructionsForCurrentLine_def case_prod_beta)
  have "length ?l1 = length ?l" by simp
  with ne obtain c cs where c: "?l1 = c # cs" by (cases "?l1") auto
  have p1: "take (currLineInstrOffset s) (currPage ?s1) = take (currLineInstrOffset s) (currPage s)"
    using len
    by (simp add: LayoutLeftStartingAt_def SetInstructionsForCurrentLine_def case_prod_beta)
  have "length ?l1 = length ?l" by simp
  then have lc: "length ?l = Suc (length cs)" using c by simp
  show ?thesis
    using l1 c p1 len lc
    by (simp add: JustifyLineBoth_def Let_def SetInstructionsForCurrentLine_def
        GetInstructionsForCurrentLine_def)
qed

lemma JustifyLineBoth_text_only:
  assumes off: "currLineInstrOffset s \<le> length (currPage s)"
    and alltext: "\<forall>i \<in> set (GetInstructionsForCurrentLine s). instr_type i = InstrTypeString"
    and N: "2 \<le> length (GetInstructionsForCurrentLine s)"
    and nonneg: "0 \<le> line_pos (spaceDx s) (GetInstructionsForCurrentLine s)
                      (length (GetInstructionsForCurrentLine s)) - spaceDx s"
    and k: "k < length (GetInstructionsForCurrentLine s)"
  shows "X (bbox (GetInstructionsForCurrentLine (JustifyLineBoth s) ! k)) =
           line_pos (spaceDx s) (GetInstructionsForCurrentLine s) k
           + real k * ((pageSize_dx s
                         - (line_pos (spaceDx s) (GetInstructionsForCurrentLine s)
                              (length (GetInstructionsForCurrentLine s)) - spaceDx s))
                       / real (length (GetInstructionsForCurrentLine s) - 1))"
    and "Width (bbox (GetInstructionsForCurrentLine (JustifyLineBoth s) ! k)) =
           Width (bbox (GetInstructionsForCurrentLine s ! k))"
proof -
  let ?l = "GetInstructionsForCurrentLine s"
  let ?l1 = "fst (LayoutLeft_loop (spaceDx s) (curr_y s) 0 ?l)"
  let ?c = "line_pos (spaceDx s) ?l (length ?l) - spaceDx s"
  let ?e = "(pageSize_dx s - ?c) / real (length ?l - 1)"
  have ne: "?l \<noteq> []" using N by auto
  have dx: "GetCurrentLineDx s = ?c"
    using nonneg GetCurrentLineDx_loop_text [OF alltext, of "spaceDx s" "- spaceDx s"]
    by (simp add: GetCurrentLineDx_def Let_def)
  have line: "GetInstructionsForCurrentLine (JustifyLineBoth s) = hd ?l1 # JustifyLineBoth_loop 1 ?e (tl ?l1)"
    using JustifyLineBoth_line [OF off ne] N dx by (simp add: Let_def)
  have len1: "length ?l1 = length ?l" by simp
  have nth1: "?l1 ! j = (?l ! j)\<lparr>bbox := (bbox (?l ! j))\<lparr>X := 0 + line_pos (spaceDx s) ?l j, Y := curr_y s\<rparr>\<rparr>"
    if "j < length ?l" for j
    using LayoutLeft_loop_text [OF alltext that] by simp
  have both: "X (bbox (GetInstructionsForCurrentLine (JustifyLineBoth s) ! k)) =
           line_pos (spaceDx s) ?l k + real k * ?e
      \<and> Width (bbox (GetInstructionsForCurrentLine (JustifyLineBoth s) ! k)) = Width (bbox (?l ! k))"
  proof (cases k)
    case 0
    have "hd ?l1 = ?l1 ! 0" using ne len1 by (metis hd_conv_nth length_0_conv)
    then show ?thesis using 0 line nth1 [of 0] ne by (simp add: line_pos_def)
  next
    case (Suc j)
    have j: "j < length (tl ?l1)" using k Suc len1 by simp
    have "tl ?l1 ! j = ?l1 ! Suc j" using j by (simp add: nth_tl)
    then show ?thesis
      using Suc line JustifyLineBoth_loop_nth [OF j, of 1 ?e] nth1 [of "Suc j"] k
      by simp
  qed
  from both show "X (bbox (GetInstructionsForCurrentLine (JustifyLineBoth s) ! k)) =
           line_pos (spaceDx s) ?l k + real k * ?e" by simp
  from both show "Width (bbox (GetInstructionsForCurrentLine (JustifyLineBoth s) ! k)) =
           Width (bbox (?l ! k))" by simp
qed

lemma line_pos_Suc:
  "k < length l \<Longrightarrow> line_pos sp l (Suc k) = line_pos sp l k + (Width (bbox (l ! k)) + sp)"
  by (simp add: line_pos_def take_Suc_conv_app_nth)

lemma JustifyLineBoth_line_length:
  assumes "currLineInstrOffset s \<le> length (currPage s)"
  shows "length (GetInstructionsForCurrentLine (JustifyLineBoth s))
           = length (GetInstructionsForCurrentLine s)"
proof -
  have "length (currPage (JustifyLineBoth s)) = length (currPage s)"
    using JustifyLineBoth_types [of s] by (metis length_map)
  then show ?thesis by (simp add: GetInstructionsForCurrentLine_def)
qed

lemma JustifyLineBoth_text_only_edges:
  assumes off: "currLineInstrOffset s \<le> length (currPage s)"
    and alltext: "\<forall>i \<in> set (GetInstructionsForCurrentLine s). instr_type i = InstrTypeString"
    and N: "2 \<le> length (GetInstructionsForCurrentLine s)"
    and nonneg: "0 \<le> line_pos (spaceDx s) (GetInstructionsForCurrentLine s)
                      (length (GetInstructionsForCurrentLine s)) - spaceDx s"
  shows "X (bbox (hd (GetInstructionsForCurrentLine (JustifyLineBoth s)))) = 0"
    and "X (bbox (last (GetInstructionsForCurrentLine (JustifyLineBoth s))))
         + Width (bbox (last (GetInstructionsForCurrentLine (JustifyLineBoth s)))) = pageSize_dx s"
proof -
  let ?l = "GetInstructionsForCurrentLine s"
  let ?l' = "GetInstructionsForCurrentLine (JustifyLineBoth s)"
  let ?sp = "spaceDx s"
  have len: "length ?l' = length ?l" using off by (rule JustifyLineBoth_line_length)
  have ne: "?l' \<noteq> []" using len N by auto
  have "hd ?l' = ?l' ! 0" using ne by (simp add: hd_conv_nth)
  moreover have "0 < length ?l" using N by linarith
  ultimately show "X (bbox (hd ?l')) = 0"
    using JustifyLineBoth_text_only(1) [OF off alltext N nonneg, of 0]
    by (simp add: line_pos_def)
  obtain m where m: "length ?l = Suc m" "1 \<le> m" using N by (cases "length ?l") auto
  have lastk: "last ?l' = ?l' ! m" using ne len m by (simp add: last_conv_nth)
  have km: "m < length ?l" using m by simp
  have total: "line_pos ?sp ?l (length ?l) = line_pos ?sp ?l m + (Width (bbox (?l ! m)) + ?sp)"
    using line_pos_Suc [OF km, of ?sp] m by simp
  have "real m * ((pageSize_dx s - (line_pos ?sp ?l (length ?l) - ?sp)) / real (length ?l - 1))
          = pageSize_dx s - (line_pos ?sp ?l (length ?l) - ?sp)"
    using m by simp
  then show "X (bbox (last ?l')) + Width (bbox (last ?l')) = pageSize_dx s"
    using JustifyLineBoth_text_only [OF off alltext N nonneg km] total lastk
    by simp
qed

text \<open>
  C1. The html \<^verbatim>\<open>aaaa <b>bbbb</b> cccc\<close> on a page 100 wide (words 40 wide, spaces 4):
  the third word wraps, so the first line, \<^verbatim>\<open>[Text aaaa, SetFont, Text bbbb, SetFont]\<close>, is
  justified by \<^verbatim>\<open>JustifyLineBoth\<close>. Its content is 84 wide, the margin is 16. The code
  divides the margin by the number of instructions less one (3), not by the number of
  words less one (1), and shifts each instruction by its index among all instructions: the
  second word moves by \<open>2 * 16 / 3\<close> and ends at \<open>284 / 3\<close>, not at the page width 100.
\<close>

theorem JustifyLineBoth_counts_SetFont:
  "pageObserver (LayoutHtml sampleEnv (sampleInfo 200 bold_tokens) [] (Some [])) =
     Some [[SetFontAt 0 0, Str4 ''aaaa'' 0 0, SetFontAt 1 (16 / 3), Str4 ''bbbb'' (164 / 3) 0,
            SetFontAt 0 16, Str4 ''cccc'' 0 20]]
   \<and> currJustification bold_line_state = Align_Justify
   \<and> pageSize_dx bold_line_state = 100
   \<and> GetCurrentLineDx bold_line_state = 84
   \<and> GetInstructionsForCurrentLine (JustifyLineBoth bold_line_state) =
       [Str4 ''aaaa'' 0 0, SetFontAt 1 (16 / 3), Str4 ''bbbb'' (164 / 3) 0, SetFontAt 0 16]
   \<and> map (\<lambda>i. X (bbox i) + Width (bbox i))
         (filter (\<lambda>i. instr_type i = InstrTypeString)
            (GetInstructionsForCurrentLine (JustifyLineBoth bold_line_state))) = [40, 284 / 3]"
  by code_simp

end
